theory Spec2Isabelle
  imports Main "HOL-Library.AList" "HOL-Library.Sublist" "HOL-Library.Multiset"
begin

section \<open>Strings and the standard-library calls the package relies on\<close>

text \<open>
  A Go \<^verbatim>\<open>string\<close> is a byte sequence; it is modelled as \<^typ>\<open>string\<close> (a list of
  8-bit characters).  All the regular expressions of the package mention ASCII characters
  only and a negated class such as \<^verbatim>\<open>[^:]\<close> consumes one whole rune, none of whose bytes
  is ASCII when the rune is not; so the captured groups are the same whether the text is
  read rune by rune or byte by byte.

  Go's unordered \<^verbatim>\<open>map\<close> is modelled as an association list with unique keys: a lookup is
  \<^const>\<open>map_of\<close>, an assignment \<^verbatim>\<open>m[k] = v\<close> is \<^const>\<open>AList.update\<close>, \<^verbatim>\<open>len(m)\<close> is
  \<^const>\<open>length\<close>.  The order of the list is an artefact of the model; every \<^verbatim>\<open>range\<close>
  over a map takes the order of its visit from a parameter (a \<open>range order\<close>), which may be
  any permutation.
\<close>

definition newline :: char where
  "newline = CHR 0x0A"

definition is_digit :: "char \<Rightarrow> bool" where
  "is_digit c \<longleftrightarrow> c \<in> set ''0123456789''"

definition is_letter :: "char \<Rightarrow> bool" where
  "is_letter c \<longleftrightarrow> c \<in> set ''ABCDEFGHIJKLMNOPQRSTUVWXYZabcdefghijklmnopqrstuvwxyz''"

text \<open>The class \<^verbatim>\<open>[A-Za-z0-9_]\<close>.\<close>

definition is_ident_char :: "char \<Rightarrow> bool" where
  "is_ident_char c \<longleftrightarrow> is_letter c \<or> is_digit c \<or> c = CHR ''_''"

text \<open>The class \<^verbatim>\<open>['"]\<close>.\<close>

definition is_quote :: "char \<Rightarrow> bool" where
  "is_quote c \<longleftrightarrow> c = CHR 0x27 \<or> c = CHR 0x22"

text \<open>
  \<^verbatim>\<open>['"]?\<close> in front of something that cannot start with a quote, or at the end of a
  pattern: the greedy option takes the quote whenever there is one.
\<close>

fun opt_quote :: "string \<Rightarrow> string" where
  "opt_quote [] = []"
| "opt_quote (c # cs) = (if is_quote c then cs else c # cs)"

text \<open>A literal at the head of the text; the result is the text after it.\<close>

fun match_literal :: "string \<Rightarrow> string \<Rightarrow> string option" where
  "match_literal [] s = Some s"
| "match_literal (p # ps) [] = None"
| "match_literal (p # ps) (c # cs) = (if p = c then match_literal ps cs else None)"

text \<open>\<^verbatim>\<open>fmt.Sprintf("%d", n)\<close> for \<open>n \<ge> 0\<close>.\<close>

definition digit_char :: "nat \<Rightarrow> char" where
  "digit_char d = char_of (48 + d)"

fun show_nat :: "nat \<Rightarrow> string" where
  "show_nat n = (if n < 10 then [digit_char n] else show_nat (n div 10) @ [digit_char (n mod 10)])"

declare show_nat.simps [simp del]

definition digit_val :: "char \<Rightarrow> nat" where
  "digit_val c = of_char c - 48"

text \<open>The number a string of decimal digits denotes.\<close>

definition nat_of_digits :: "string \<Rightarrow> nat" where
  "nat_of_digits tok = foldl (\<lambda>a c. 10 * a + digit_val c) 0 tok"

text \<open>\<^verbatim>\<open>strings.Split(s, "\n")\<close>: always at least one piece.\<close>

fun split_lines :: "string \<Rightarrow> string list" where
  "split_lines [] = [[]]"
| "split_lines (c # cs) =
     (if c = newline then [] # split_lines cs
      else (case split_lines cs of
              l # ls \<Rightarrow> (c # l) # ls
            | [] \<Rightarrow> [[c]]))"

text \<open>\<^verbatim>\<open>strings.Join(ls, sep)\<close>.\<close>

fun join :: "string \<Rightarrow> string list \<Rightarrow> string" where
  "join sep [] = []"
| "join sep [l] = l"
| "join sep (l # ls) = l @ sep @ join sep ls"

text \<open>\<^verbatim>\<open>strings.Index(s, sep)\<close>; \<open>None\<close> is Go's \<open>-1\<close>.\<close>

fun str_index :: "string \<Rightarrow> string \<Rightarrow> nat option" where
  "str_index [] sep = (if sep = [] then Some 0 else None)"
| "str_index (c # cs) sep =
     (if prefix sep (c # cs) then Some 0 else map_option Suc (str_index cs sep))"

section \<open>queries.go: the regular expressions\<close>

text \<open>
  \<^verbatim>\<open>positionalParamRE = `\$(\d+)`\<close> at the head of the text: the captured digits and the
  text after the match.
\<close>

fun match_positional :: "string \<Rightarrow> (string \<times> string) option" where
  "match_positional (d # c # s) =
     (if d = CHR ''$'' \<and> is_digit c
      then Some (c # takeWhile is_digit s, dropWhile is_digit s)
      else None)"
| "match_positional s = None"

text \<open>
  \<^verbatim>\<open>colonParamRE = `[^:]:['"]?([A-Za-z][A-Za-z0-9_]*)['"]?`\<close> and \<^verbatim>\<open>atSignParamRE\<close>, the same
  with \<^verbatim>\<open>@\<close>, at the head of the text.  The marker is a parameter; the result is the
  captured name and the text after the match.
\<close>

fun match_named :: "char \<Rightarrow> string \<Rightarrow> (string \<times> string) option" where
  "match_named mk (p # m # s) =
     (if p \<noteq> mk \<and> m = mk then
        (case opt_quote s of
           [] \<Rightarrow> None
         | c # cs \<Rightarrow>
             if is_letter c
             then Some (c # takeWhile is_ident_char cs, opt_quote (dropWhile is_ident_char cs))
             else None)
      else None)"
| "match_named mk s = None"

lemma match_positional_shorter:
  "match_positional s = Some (tok, rest) \<Longrightarrow> length rest < length s"
  by (induction s rule: match_positional.induct)
     (auto split: if_splits intro: le_imp_less_Suc length_dropWhile_le less_SucI)

lemma opt_quote_length: "length (opt_quote s) \<le> length s"
  by (cases s) auto

lemma match_named_shorter:
  assumes "match_named mk s = Some (name, rest)"
  shows "length rest < length s"
proof -
  from assms obtain p m t where s: "s = p # m # t"
    by (cases "(mk, s)" rule: match_named.cases) auto
  with assms obtain c cs where oq: "opt_quote t = c # cs"
    and rest: "rest = opt_quote (dropWhile is_ident_char cs)"
    by (auto split: if_splits list.splits)
  have "length rest \<le> length cs"
    unfolding rest using opt_quote_length[of "dropWhile is_ident_char cs"]
      length_dropWhile_le[of is_ident_char cs] by linarith
  moreover have "length (c # cs) \<le> length t"
    using opt_quote_length[of t] oq by simp
  ultimately show ?thesis using s by simp
qed

text \<open>
  \<^verbatim>\<open>FindAllStringSubmatch(text, -1)\<close>: the leftmost match, then the leftmost match in what
  follows it, and so on.  Only the captured group is used by the package.  For the named
  patterns the offset of the marker character in the whole text is kept with each name.
\<close>

function find_positional :: "string \<Rightarrow> string list" where
  "find_positional [] = []"
| "find_positional (c # cs) =
     (case match_positional (c # cs) of
        Some (tok, rest) \<Rightarrow> tok # find_positional rest
      | None \<Rightarrow> find_positional cs)"
  by pat_completeness auto
termination
  by (relation "measure length") (auto dest: match_positional_shorter)

function find_named_at :: "char \<Rightarrow> nat \<Rightarrow> string \<Rightarrow> (nat \<times> string) list" where
  "find_named_at mk i [] = []"
| "find_named_at mk i (c # cs) =
     (case match_named mk (c # cs) of
        Some (name, rest) \<Rightarrow>
          (Suc i, name) # find_named_at mk (i + (length (c # cs) - length rest)) rest
      | None \<Rightarrow> find_named_at mk (Suc i) cs)"
  by pat_completeness auto
termination
  by (relation "measure (\<lambda>(mk, i, s). length s)") (auto dest: match_named_shorter)

definition find_named :: "char \<Rightarrow> string \<Rightarrow> string list" where
  "find_named mk s = map snd (find_named_at mk 0 s)"

section \<open>queries.go: the query descriptor and parameter analysis\<close>

record Query =
  Name :: string
  Path :: string
  Raw :: string
  OrdinalQuery :: string
  Mapping :: "(string \<times> nat) list"
  Args :: "string list"
  NamedArgs :: "string list"
  Metadata :: "(string \<times> string) list"

text \<open>
  \<^verbatim>\<open>NamedArgs\<close> holds \<^verbatim>\<open>sql.Named(name, nil)\<close> values: a name with a nil value, kept here
  as the name.  The errors the package builds with \<^verbatim>\<open>fmt.Errorf\<close> are kept structured;
  \<open>error_message\<close> renders the text of each.
\<close>

datatype error =
    MixedParameterStyles string "string list"
  | AlreadyExists string
  | ErrorCreatingQuery string error

fun error_message :: "error \<Rightarrow> string" where
  "error_message (MixedParameterStyles queryName styles) =
     ''mixed parameter styles detected in query '' @ [CHR 0x27] @ queryName @ [CHR 0x27]
       @ '': found '' @ join '' and '' styles @ ''. Use only one style per query''"
| "error_message (AlreadyExists name) =
     ''Query '' @ [CHR 0x27] @ name @ [CHR 0x27] @ '' already exists''"
| "error_message (ErrorCreatingQuery name err) =
     ''Error creating query '' @ [CHR 0x27] @ name @ [CHR 0x27] @ '': '' @ error_message err"

definition reservedNames :: "string list" where
  "reservedNames = [''MI'', ''SS'']"

definition isReservedName :: "string \<Rightarrow> bool" where
  "isReservedName name \<longleftrightarrow> name \<in> set reservedNames"

definition filterReservedNames :: "string list \<Rightarrow> string list" where
  "filterReservedNames matches = filter (\<lambda>m. \<not> isReservedName m) matches"

definition strip_line :: "string \<Rightarrow> string" where
  "strip_line line = (case str_index line ''--'' of Some idx \<Rightarrow> take idx line | None \<Rightarrow> line)"

definition stripSQLComments :: "string \<Rightarrow> string" where
  "stripSQLComments query = join [newline] (map strip_line (split_lines query))"

definition validateSingleParameterStyle ::
  "string \<Rightarrow> string list \<Rightarrow> string list \<Rightarrow> string list \<Rightarrow> error option" where
  "validateSingleParameterStyle queryName positional colon atSign =
     (let styles = (if length positional > 0 then [''positional ($1, $2, ...)''] else [])
                 @ (if length colon > 0 then [''colon (:param)''] else [])
                 @ (if length atSign > 0 then [''at-sign (@param)''] else [])
      in if length styles > 1 then Some (MixedParameterStyles queryName styles) else None)"

text \<open>
  Go's \<^verbatim>\<open>int\<close> is taken to be 64 bits wide.  \<^verbatim>\<open>fmt.Sscanf(tok, "%d", &num)\<close> on a string of
  digits stores its value, unless the value does not fit: then \<^verbatim>\<open>Sscanf\<close> returns an error,
  which the caller drops, and \<^verbatim>\<open>num\<close> keeps its initial 0.
\<close>

definition max_int :: nat where
  "max_int = 9223372036854775807"

definition sscanf_d :: "string \<Rightarrow> nat" where
  "sscanf_d tok = (let v = nat_of_digits tok in if v \<le> max_int then v else 0)"

definition header :: "string \<Rightarrow> string \<Rightarrow> string" where
  "header name query = ''-- name: '' @ name @ [newline] @ query"

text \<open>The first loop of \<^verbatim>\<open>handlePositionalParams\<close>: the highest parameter number.\<close>

fun max_param :: "nat \<Rightarrow> string list \<Rightarrow> nat" where
  "max_param maxParam [] = maxParam"
| "max_param maxParam (tok # matches) =
     (let num = sscanf_d tok
      in max_param (if num > maxParam then num else maxParam) matches)"

text \<open>
  The second loop, \<^verbatim>\<open>for i := 1; i <= maxParam; i++\<close>, over the triple of \<^verbatim>\<open>mapping\<close>,
  \<^verbatim>\<open>namedArgs\<close> and \<^verbatim>\<open>args\<close>.
\<close>

function synthetic_loop ::
  "nat \<Rightarrow> nat \<Rightarrow> (string \<times> nat) list \<times> string list \<times> string list
     \<Rightarrow> (string \<times> nat) list \<times> string list \<times> string list" where
  "synthetic_loop i maxParam (mapping, namedArgs, args) =
     (if i \<le> maxParam
      then (let syntheticName = ''arg'' @ show_nat i
            in synthetic_loop (Suc i) maxParam
                 (AList.update syntheticName i mapping, namedArgs @ [syntheticName],
                  args @ [syntheticName]))
      else (mapping, namedArgs, args))"
  by pat_completeness auto
termination
  by (relation "measure (\<lambda>(i, maxParam, st). Suc maxParam - i)") auto

declare synthetic_loop.simps [simp del]

text \<open>
  When \<^verbatim>\<open>maxParam\<close> is the largest \<^verbatim>\<open>int\<close>, the counter wraps around instead of exceeding
  it and the loop never ends: the function does not return, which is the value \<open>None\<close>.
\<close>

definition handlePositionalParams ::
  "Query \<Rightarrow> string \<Rightarrow> string \<Rightarrow> string \<Rightarrow> string list \<Rightarrow> Query option" where
  "handlePositionalParams q name query cleanQuery matches =
     (let maxParam = max_param 0 matches
      in if maxParam = max_int then None
         else (case synthetic_loop 1 maxParam ([], [], []) of
                 (mapping, namedArgs, args) \<Rightarrow>
                   Some (q\<lparr>OrdinalQuery := header name query, Mapping := mapping,
                           Args := args, NamedArgs := namedArgs\<rparr>)))"

text \<open>
  \<^verbatim>\<open>namedParamRE = `[:@]["']?%s["']?`\<close> with the parameter name filled in, at the head of
  the text; the result is the text after the match.  The name is one that \<^verbatim>\<open>colonParamRE\<close>
  or \<^verbatim>\<open>atSignParamRE\<close> captured: it starts with a letter and holds no character that is
  special in a regular expression, so it stands for itself and the optional quote before
  it is decided by the next character alone.
\<close>

fun match_named_param :: "string \<Rightarrow> string \<Rightarrow> string option" where
  "match_named_param paramName [] = None"
| "match_named_param paramName (m # s) =
     (if m = CHR '':'' \<or> m = CHR ''@''
      then map_option opt_quote (match_literal paramName (opt_quote s))
      else None)"

lemma match_literal_length:
  "match_literal p s = Some rest \<Longrightarrow> length rest \<le> length s"
  by (induction p s rule: match_literal.induct) (auto split: if_splits)

lemma match_named_param_shorter:
  assumes "match_named_param nm s = Some rest"
  shows "length rest < length s"
proof -
  from assms obtain m t r where s: "s = m # t" and r: "match_literal nm (opt_quote t) = Some r"
    and rest: "rest = opt_quote r"
    by (cases s) (auto split: if_splits)
  have "length rest \<le> length r" using rest opt_quote_length by simp
  also have "\<dots> \<le> length (opt_quote t)" using r by (rule match_literal_length)
  also have "\<dots> \<le> length t" by (rule opt_quote_length)
  finally show ?thesis using s by simp
qed

text \<open>\<^verbatim>\<open>pattern.ReplaceAllLiteralString(query, repl)\<close>.\<close>

function replace_all :: "string \<Rightarrow> string \<Rightarrow> string \<Rightarrow> string" where
  "replace_all paramName repl [] = []"
| "replace_all paramName repl (c # cs) =
     (case match_named_param paramName (c # cs) of
        Some rest \<Rightarrow> repl @ replace_all paramName repl rest
      | None \<Rightarrow> c # replace_all paramName repl cs)"
  by pat_completeness auto
termination
  by (relation "measure (\<lambda>(nm, repl, s). length s)")
     (auto dest: match_named_param_shorter simp del: match_named_param.simps)

text \<open>The first loop of \<^verbatim>\<open>handleNamedParams\<close>, over \<^verbatim>\<open>allMatches\<close>.\<close>

fun collect_params ::
  "string list \<Rightarrow> (string \<times> nat) list \<times> string list \<times> string list \<times> nat
     \<Rightarrow> (string \<times> nat) list \<times> string list \<times> string list \<times> nat" where
  "collect_params [] st = st"
| "collect_params (variable # matches) (mapping, namedArgs, args, position) =
     (if isReservedName variable
      then collect_params matches (mapping, namedArgs, args, position)
      else if map_of mapping variable = None
      then collect_params matches
             (AList.update variable position mapping, namedArgs @ [variable],
              args @ [variable], Suc position)
      else collect_params matches (mapping, namedArgs, args @ [variable], position))"

text \<open>
  The second loop, \<^verbatim>\<open>for paramName, ord := range mapping\<close>: the entries are visited in the
  order \<open>range_order\<close> puts them in.
\<close>

fun replace_params :: "(string \<times> nat) list \<Rightarrow> string \<Rightarrow> string" where
  "replace_params [] query = query"
| "replace_params ((paramName, ord) # entries) query =
     replace_params entries (replace_all paramName (''$'' @ show_nat ord) query)"

definition handleNamedParams ::
  "((string \<times> nat) list \<Rightarrow> (string \<times> nat) list) \<Rightarrow> Query \<Rightarrow> string \<Rightarrow> string \<Rightarrow> string
     \<Rightarrow> Query" where
  "handleNamedParams range_order q name query cleanQuery =
     (let colonMatches = find_named (CHR '':'') cleanQuery;
          atSignMatches = find_named (CHR ''@'') cleanQuery;
          allMatches = colonMatches @ atSignMatches
      in case collect_params allMatches ([], [], [], 1) of
           (mapping, namedArgs, args, position) \<Rightarrow>
             q\<lparr>OrdinalQuery := header name (replace_params (range_order mapping) query),
               Mapping := mapping, Args := args, NamedArgs := namedArgs\<rparr>)"

text \<open>
  \<^verbatim>\<open>NewQuery\<close>: \<open>None\<close> when the call does not return, \<open>Some (Inl err)\<close> for
  \<^verbatim>\<open>(nil, err)\<close>, \<open>Some (Inr q)\<close> for \<^verbatim>\<open>(&q, nil)\<close>.  A nil \<^verbatim>\<open>metadata\<close> is the empty table.
\<close>

definition NewQuery ::
  "((string \<times> nat) list \<Rightarrow> (string \<times> nat) list) \<Rightarrow> string \<Rightarrow> string \<Rightarrow> string
     \<Rightarrow> (string \<times> string) list \<Rightarrow> (error + Query) option" where
  "NewQuery range_order name path query metadata =
     (let q = \<lparr>Name = name, Path = path, Raw = query, OrdinalQuery = [], Mapping = [],
                Args = [], NamedArgs = [], Metadata = metadata\<rparr>;
          cleanQuery = stripSQLComments query;
          positionalMatches = find_positional cleanQuery;
          colonMatches = filterReservedNames (find_named (CHR '':'') cleanQuery);
          atSignMatches = filterReservedNames (find_named (CHR ''@'') cleanQuery)
      in case validateSingleParameterStyle name positionalMatches colonMatches atSignMatches of
           Some err \<Rightarrow> Some (Inl err)
         | None \<Rightarrow>
             if length positionalMatches > 0
             then map_option Inr (handlePositionalParams q name query cleanQuery positionalMatches)
             else Some (Inr (handleNamedParams range_order q name query cleanQuery)))"

text \<open>
  \<^verbatim>\<open>Prepare\<close>: the entries of the mapping in the order \<open>range_order\<close> gives, sorted by
  ordinal; then one component for each.  A missing argument is nil, here \<open>None\<close>.
  \<^verbatim>\<open>sort.Slice\<close> is not stable; on entries whose ordinals differ every sort gives the one
  result \<^const>\<open>sort_key\<close> gives.
\<close>

definition Prepare ::
  "((string \<times> nat) list \<Rightarrow> (string \<times> nat) list) \<Rightarrow> Query \<Rightarrow> (string \<rightharpoonup> 'v) \<Rightarrow> 'v option list" where
  "Prepare range_order q args =
     (let params = sort_key snd (range_order (Mapping q))
      in map (\<lambda>param. args (fst param)) params)"

text \<open>
  What every \<^verbatim>\<open>range\<close> over a map guarantees: each entry is visited once, in some order.
\<close>

definition range_order_ok :: "('a list \<Rightarrow> 'a list) \<Rightarrow> bool" where
  "range_order_ok range_order \<longleftrightarrow> (\<forall>xs. mset (range_order xs) = mset xs)"

section \<open>scanner.go\<close>

record ScannedQuery =
  sq_Query :: string
  sq_Metadata :: "(string \<times> string) list"

text \<open>
  The fields \<^verbatim>\<open>queries\<close> and \<^verbatim>\<open>current\<close> of the scanner; the current line is an argument of
  each function below, and the field \<^verbatim>\<open>metadata\<close> is never used.
\<close>

record Scanner =
  queries :: "(string \<times> ScannedQuery) list"
  current :: string

datatype stateFn = InitialState | QueryState

text \<open>The class \<^verbatim>\<open>\s\<close> of the regular expressions: tab, newline, form feed, return, space.\<close>

definition re_space :: "char \<Rightarrow> bool" where
  "re_space c \<longleftrightarrow> c \<in> {CHR 0x09, CHR 0x0A, CHR 0x0C, CHR 0x0D, CHR 0x20}"

text \<open>\<^verbatim>\<open>strings.Trim(s, cutset)\<close> for a cutset of ASCII characters, given as a predicate.\<close>

definition trim_with :: "(char \<Rightarrow> bool) \<Rightarrow> string \<Rightarrow> string" where
  "trim_with P s = rev (dropWhile P (rev (dropWhile P s)))"

text \<open>
  \<^verbatim>\<open>strings.TrimSpace\<close> cuts off the leading and the trailing white space, as
  \<^verbatim>\<open>unicode.IsSpace\<close> defines it.  The runes below are that white space in UTF-8: the six
  ASCII characters, U+0085, U+00A0, U+1680, U+2000 to U+200A, U+2028, U+2029, U+202F,
  U+205F and U+3000.  Each starts with a byte that starts a rune and goes on with
  continuation bytes, so the text starts (ends) with such a rune exactly when it starts
  (ends) with these bytes.
\<close>

definition space_runes :: "string list" where
  "space_runes =
     [[CHR 0x09], [CHR 0x0A], [CHR 0x0B], [CHR 0x0C], [CHR 0x0D], [CHR 0x20],
      [CHR 0xC2, CHR 0x85], [CHR 0xC2, CHR 0xA0], [CHR 0xE1, CHR 0x9A, CHR 0x80],
      [CHR 0xE2, CHR 0x80, CHR 0x80], [CHR 0xE2, CHR 0x80, CHR 0x81],
      [CHR 0xE2, CHR 0x80, CHR 0x82], [CHR 0xE2, CHR 0x80, CHR 0x83],
      [CHR 0xE2, CHR 0x80, CHR 0x84], [CHR 0xE2, CHR 0x80, CHR 0x85],
      [CHR 0xE2, CHR 0x80, CHR 0x86], [CHR 0xE2, CHR 0x80, CHR 0x87],
      [CHR 0xE2, CHR 0x80, CHR 0x88], [CHR 0xE2, CHR 0x80, CHR 0x89],
      [CHR 0xE2, CHR 0x80, CHR 0x8A], [CHR 0xE2, CHR 0x80, CHR 0xA8],
      [CHR 0xE2, CHR 0x80, CHR 0xA9], [CHR 0xE2, CHR 0x80, CHR 0xAF],
      [CHR 0xE2, CHR 0x81, CHR 0x9F], [CHR 0xE3, CHR 0x80, CHR 0x80]]"

text \<open>The text without the first of the runes it starts with, if it starts with one.\<close>

fun strip_rune :: "string list \<Rightarrow> string \<Rightarrow> string option" where
  "strip_rune [] s = None"
| "strip_rune (r # rs) s =
     (if r \<noteq> [] \<and> prefix r s then Some (drop (length r) s) else strip_rune rs s)"

lemma strip_rune_shorter: "strip_rune rs s = Some t \<Longrightarrow> length t < length s"
  by (induction rs) (auto split: if_splits simp: prefix_def)

function trim_runes :: "string list \<Rightarrow> string \<Rightarrow> string" where
  "trim_runes rs s = (case strip_rune rs s of Some t \<Rightarrow> trim_runes rs t | None \<Rightarrow> s)"
  by pat_completeness auto
termination
  by (relation "measure (\<lambda>(rs, s). length s)") (auto dest: strip_rune_shorter)

declare trim_runes.simps [simp del]

definition TrimSpace :: "string \<Rightarrow> string" where
  "TrimSpace s = rev (trim_runes (map rev space_runes) (rev (trim_runes space_runes s)))"

text \<open>\<^verbatim>\<open>strings.ToLower\<close> on a string of ASCII characters.\<close>

definition to_lower_char :: "char \<Rightarrow> char" where
  "to_lower_char c =
     (if c \<in> set ''ABCDEFGHIJKLMNOPQRSTUVWXYZ'' then char_of (of_char c + (32::nat)) else c)"

definition ToLower :: "string \<Rightarrow> string" where
  "ToLower s = map to_lower_char s"

text \<open>
  The lines come from a \<^verbatim>\<open>bufio.Scanner\<close> and hold no newline.
  \<^verbatim>\<open>getTag\<close> matches \<^verbatim>\<open>^\s*--\s*name:\s*(\S+)\<close>; the empty string is its answer when nothing
  matches.
\<close>

definition getTag :: "string \<Rightarrow> string" where
  "getTag line =
     (case match_literal ''--'' (dropWhile re_space line) of
        None \<Rightarrow> []
      | Some r1 \<Rightarrow>
          (case match_literal ''name:'' (dropWhile re_space r1) of
             None \<Rightarrow> []
           | Some r2 \<Rightarrow> takeWhile (\<lambda>c. \<not> re_space c) (dropWhile re_space r2)))"

text \<open>The class \<^verbatim>\<open>[a-zA-Z0-9_-]\<close>.\<close>

definition is_key_char :: "char \<Rightarrow> bool" where
  "is_key_char c \<longleftrightarrow> is_ident_char c \<or> c = CHR ''-''"

text \<open>
  \<^verbatim>\<open>getMetadata\<close> matches \<^verbatim>\<open>^\s*--\s*([a-zA-Z][a-zA-Z0-9_-]*):\s*(.+)\s*$\<close>: after the colon at
  least one character has to follow, and the second group, once trimmed, is what follows
  the colon, trimmed.
\<close>

definition getMetadata :: "string \<Rightarrow> (string \<times> string) option" where
  "getMetadata line =
     (case match_literal ''--'' (dropWhile re_space line) of
        None \<Rightarrow> None
      | Some r1 \<Rightarrow>
          (case dropWhile re_space r1 of
             [] \<Rightarrow> None
           | c # cs \<Rightarrow>
               if is_letter c then
                 (let key = c # takeWhile is_key_char cs
                  in case dropWhile is_key_char cs of
                       [] \<Rightarrow> None
                     | d # rest \<Rightarrow>
                         if d = CHR '':'' \<and> rest \<noteq> [] \<and> key \<noteq> ''name''
                         then Some (ToLower (TrimSpace key), TrimSpace rest)
                         else None)
               else None))"

definition empty_query :: ScannedQuery where
  "empty_query = \<lparr>sq_Query = [], sq_Metadata = []\<rparr>"

text \<open>
  \<^verbatim>\<open>appendQueryLine\<close> and \<^verbatim>\<open>appendMetadata\<close>: both create the entry of the current name when
  the table has none, then change it.
\<close>

definition appendQueryLine :: "string \<Rightarrow> Scanner \<Rightarrow> Scanner" where
  "appendQueryLine ln s =
     (let line = trim_with (\<lambda>c. c = CHR 0x20 \<or> c = CHR 0x09) ln
      in if length line = 0 then s
         else (let sq = (case map_of (queries s) (current s) of
                           None \<Rightarrow> empty_query
                         | Some sq \<Rightarrow> sq);
                   cur = sq_Query sq;
                   cur' = (if length cur > 0 then cur @ [newline] else cur) @ line
               in s\<lparr>queries := AList.update (current s) (sq\<lparr>sq_Query := cur'\<rparr>) (queries s)\<rparr>))"

definition appendMetadata :: "string \<Rightarrow> string \<Rightarrow> Scanner \<Rightarrow> Scanner" where
  "appendMetadata key val s =
     (let sq = (case map_of (queries s) (current s) of
                  None \<Rightarrow> empty_query
                | Some sq \<Rightarrow> sq)
      in s\<lparr>queries := AList.update (current s)
                          (sq\<lparr>sq_Metadata := AList.update key val (sq_Metadata sq)\<rparr>)
                          (queries s)\<rparr>)"

definition initialState :: "string \<Rightarrow> Scanner \<Rightarrow> stateFn \<times> Scanner" where
  "initialState line s =
     (let tag = getTag line
      in if length tag > 0 then (QueryState, s\<lparr>current := tag\<rparr>)
         else (let trimmed = TrimSpace line
               in if trimmed = [] \<or> prefix ''--'' trimmed then (InitialState, s)
                  else (QueryState, appendQueryLine line s)))"

definition queryState :: "string \<Rightarrow> Scanner \<Rightarrow> stateFn \<times> Scanner" where
  "queryState line s =
     (let tag = getTag line
      in if length tag > 0 then (QueryState, s\<lparr>current := tag\<rparr>)
         else (case getMetadata line of
                 Some (key, val) \<Rightarrow> (QueryState, appendMetadata key val s)
               | None \<Rightarrow> (QueryState, appendQueryLine line s)))"

fun run_lines :: "stateFn \<Rightarrow> Scanner \<Rightarrow> string list \<Rightarrow> Scanner" where
  "run_lines state s [] = s"
| "run_lines state s (line # rest) =
     (case (case state of InitialState \<Rightarrow> initialState line s
                        | QueryState \<Rightarrow> queryState line s) of
        (state', s') \<Rightarrow> run_lines state' s' rest)"

text \<open>
  \<^verbatim>\<open>Run\<close>: \<open>baseName\<close> is
  \<^verbatim>\<open>filepath.Base(strings.TrimSuffix(fileName, filepath.Ext(fileName)))\<close>, worked out by the
  caller of the model; \<open>lines\<close> is what \<^verbatim>\<open>io.Scan()\<close> and \<^verbatim>\<open>io.Text()\<close> deliver.
\<close>

definition Run :: "string \<Rightarrow> string list \<Rightarrow> (string \<times> ScannedQuery) list" where
  "Run baseName lines = queries (run_lines InitialState \<lparr>queries = [], current = baseName\<rparr> lines)"

section \<open>queries.go: the store\<close>

text \<open>
  The loop of \<^verbatim>\<open>loadQueriesFromFile\<close> over the scanned queries, in the order of the visit.
  The store is changed in place, so the result holds the store as the loop left it, with
  the error, if any.  \<open>None\<close>: a call of \<^verbatim>\<open>NewQuery\<close> did not return.  The calls of
  \<^verbatim>\<open>NewQuery\<close> share one range order; what the loop returns and the names it stores do not
  depend on it.
\<close>

fun insert_queries ::
  "((string \<times> nat) list \<Rightarrow> (string \<times> nat) list) \<Rightarrow> string \<Rightarrow> (string \<times> ScannedQuery) list
     \<Rightarrow> (string \<times> Query) list \<Rightarrow> (error option \<times> (string \<times> Query) list) option" where
  "insert_queries range_order fileName [] store = Some (None, store)"
| "insert_queries range_order fileName ((name, scannedQuery) # rest) store =
     (if map_of store name \<noteq> None then Some (Some (AlreadyExists name), store)
      else (case NewQuery range_order name fileName (sq_Query scannedQuery)
                   (sq_Metadata scannedQuery) of
              None \<Rightarrow> None
            | Some (Inl err) \<Rightarrow> Some (Some (ErrorCreatingQuery name err), store)
            | Some (Inr q) \<Rightarrow>
                insert_queries range_order fileName rest (AList.update name q store)))"

definition loadQueriesFromFile ::
  "((string \<times> nat) list \<Rightarrow> (string \<times> nat) list)
     \<Rightarrow> ((string \<times> ScannedQuery) list \<Rightarrow> (string \<times> ScannedQuery) list)
     \<Rightarrow> string \<Rightarrow> string \<Rightarrow> string list \<Rightarrow> (string \<times> Query) list
     \<Rightarrow> (error option \<times> (string \<times> Query) list) option" where
  "loadQueriesFromFile range_order scan_order fileName baseName lines store =
     insert_queries range_order fileName (scan_order (Run baseName lines)) store"

section \<open>Notions used to state the properties\<close>

text \<open>
  The distinct elements of a list in the order of their first occurrence, and a list of
  names numbered from 1.
\<close>

definition distinct_in_order :: "'a list \<Rightarrow> 'a list" where
  "distinct_in_order xs = rev (remdups (rev xs))"

definition numbered :: "string list \<Rightarrow> (string \<times> nat) list" where
  "numbered names = zip names [1..<Suc (length names)]"

text \<open>\<^verbatim>\<open>fmt.Sprintf("arg%d", i)\<close>, the synthetic name of the loop.\<close>

definition synthetic :: "nat \<Rightarrow> string" where
  "synthetic i = ''arg'' @ show_nat i"

text \<open>What detection yields: the occurrences, the named arguments, the binding table.\<close>

definition detected :: "Query \<Rightarrow> string list \<times> string list \<times> (string \<times> nat) list" where
  "detected q = (Args q, NamedArgs q, Mapping q)"




section \<open>Where a named placeholder can be found\<close>

lemma opt_quote_suffix: "suffix (opt_quote s) s"
  by (cases s) (auto simp: suffix_Cons)

lemma match_named_Some:
  assumes "match_named mk s = Some (name, rest)"
  shows "\<exists>p t pre. s = p # mk # t \<and> p \<noteq> mk \<and> t = pre @ rest"
proof -
  from assms obtain p m t where s: "s = p # m # t"
    by (cases "(mk, s)" rule: match_named.cases) auto
  with assms obtain c cs where pm: "p \<noteq> mk" "m = mk" and oq: "opt_quote t = c # cs"
    and rest: "rest = opt_quote (dropWhile is_ident_char cs)"
    by (auto split: if_splits list.splits)
  have "suffix rest cs"
    unfolding rest using opt_quote_suffix suffix_dropWhile suffix_order.trans by blast
  moreover have "suffix cs t"
    using opt_quote_suffix[of t] oq by (metis suffix_ConsD)
  ultimately have "suffix rest t" by (rule suffix_order.trans)
  then show ?thesis using s pm by (auto simp: suffix_def)
qed

lemma find_named_at_marker:
  "(i, name) \<in> set (find_named_at mk j s) \<Longrightarrow>
     j < i \<and> i < j + length s \<and> s ! (i - j) = mk \<and> s ! (i - j - 1) \<noteq> mk"
proof (induction mk j s rule: find_named_at.induct)
  case (1 mk j)
  then show ?case by simp
next
  case (2 mk j c cs)
  show ?case
  proof (cases "match_named mk (c # cs)")
    case None
    with 2 have "(i, name) \<in> set (find_named_at mk (Suc j) cs)" by simp
    from "2.IH"(1)[OF None this]
    have ih: "Suc j < i" "i < Suc j + length cs" "cs ! (i - Suc j) = mk"
      "cs ! (i - Suc j - 1) \<noteq> mk" by auto
    have "i - j = Suc (i - Suc j)" "i - j - 1 = Suc (i - Suc j - 1)"
      using ih(1) by auto
    then show ?thesis using ih by simp
  next
    case (Some a)
    obtain nm rest where a: "a = (nm, rest)" by (cases a)
    from match_named_Some[OF Some[unfolded a]] obtain t pre
      where cs: "cs = mk # t" and c: "c \<noteq> mk" and t: "t = pre @ rest" by auto
    let ?k = "length (c # cs) - length rest"
    have k: "?k = Suc (Suc (length pre))" using cs t by simp
    from 2(3) Some a have "(i, name) = (Suc j, nm) \<or> (i, name) \<in> set (find_named_at mk (j + ?k) rest)"
      by simp
    then show ?thesis
    proof
      assume "(i, name) = (Suc j, nm)"
      then show ?thesis using cs c by simp
    next
      assume "(i, name) \<in> set (find_named_at mk (j + ?k) rest)"
      from "2.IH"(2)[OF Some a[symmetric] this]
      have ih: "j + ?k < i" "i < j + ?k + length rest" "rest ! (i - (j + ?k)) = mk"
        "rest ! (i - (j + ?k) - 1) \<noteq> mk" by auto
      let ?P = "c # mk # pre"
      have eq: "c # cs = ?P @ rest" using cs t by simp
      have lenP: "length ?P = ?k" using k by simp
      have n1: "\<not> i - j < length ?P" and n2: "\<not> i - j - 1 < length ?P"
        using ih(1) lenP by linarith+
      have a1: "(c # cs) ! (i - j) = rest ! (i - j - length ?P)"
        unfolding eq using n1 by (simp only: nth_append if_False)
      have a2: "(c # cs) ! (i - j - 1) = rest ! (i - j - 1 - length ?P)"
        unfolding eq using n2 by (simp only: nth_append if_False)
      have e1: "i - j - length ?P = i - (j + ?k)" and e2: "i - j - 1 - length ?P = i - (j + ?k) - 1"
        using lenP by linarith+
      have "i < j + length (c # cs)"
        using ih(2) eq lenP by (metis add.assoc length_append)
      moreover have "j < i" using ih(1) by linarith
      ultimately show ?thesis using a1 a2 e1 e2 ih(3,4) by simp
    qed
  qed
qed

text \<open>
  Claim C10.  Detection runs on the comment-stripped text.  Every match of the colon
  pattern and of the at-sign pattern has its marker (\<^verbatim>\<open>:\<close> or \<^verbatim>\<open>@\<close>) at an offset of at
  least 1 in that text, behind a character that is not the marker: a placeholder whose
  marker is the very first character of the stripped text is never among the matches.
\<close>

theorem C10_marker_needs_preceding_character:
  "\<forall>mk \<in> {CHR '':'', CHR ''@''}.
     \<forall>(i, name) \<in> set (find_named_at mk 0 (stripSQLComments query)).
       0 < i \<and> i < length (stripSQLComments query)
       \<and> stripSQLComments query ! i = mk \<and> stripSQLComments query ! (i - 1) \<noteq> mk"
  using find_named_at_marker[of _ _ _ 0 "stripSQLComments query"] by auto

theorem C10_marker_needs_preceding_character_witness:
  "find_named_at (CHR '':'') 0 (stripSQLComments '':a = :b'') = [(5, ''b'')]
   \<and> (0::nat) < 5 \<and> stripSQLComments '':a = :b'' ! 5 = CHR '':''
   \<and> stripSQLComments '':a = :b'' ! (5 - 1) \<noteq> CHR '':''"
proof -
  have found: "find_named_at (CHR '':'') 0 (stripSQLComments '':a = :b'') = [(5, ''b'')]"
    by code_simp
  show ?thesis
    using C10_marker_needs_preceding_character[of "'':a = :b''"] by (simp add: found)
qed

section \<open>The scanner and blocks without a body\<close>

text \<open>
  Claim C4 says that the scanner never emits a block without a content line.  The code
  does emit one: \<^verbatim>\<open>appendMetadata\<close> creates the entry of the current name, and when no
  content line follows, the entry stays in the result with an empty body.  The stream of
  the two lines below gives the block \<open>q\<close> with the body \<open>[]\<close>.
\<close>

theorem C4_metadata_only_block_is_emitted:
  "Run ''test'' [''-- name: q'', ''-- author: bob'']
     = [(''q'', \<lparr>sq_Query = [], sq_Metadata = [(''author'', ''bob'')]\<rparr>)]"
  by code_simp

section \<open>Replacing the names by their ordinals\<close>

text \<open>
  Claim C1 says that the replacement of a name never rewrites part of the placeholder of
  a longer name.  The pattern built from \<^verbatim>\<open>namedParamRE\<close> ends with the name and an optional
  quote: nothing asks for the end of the identifier.  When the shorter name \<open>a\<close> is
  visited before \<open>abc\<close> (here: the range order \<open>id\<close>), \<^verbatim>\<open>:abc\<close> becomes \<^verbatim>\<open>$1bc\<close>; visited
  after it (the range order \<open>rev\<close>), the text comes out right.  With \<open>a\<close> the only
  parameter, the text \<^verbatim>\<open>::abc\<close>, which is no placeholder, is rewritten too, whatever the
  order.
\<close>

theorem C1_shorter_name_rewrites_longer:
  "map_option (map_sum id OrdinalQuery) (NewQuery id ''q'' ''f.sql'' ''SELECT :a, :abc'' [])
     = Some (Inr ''-- name: q\<newline>SELECT $1, $1bc'')
   \<and> map_option (map_sum id Mapping) (NewQuery id ''q'' ''f.sql'' ''SELECT :a, :abc'' [])
     = Some (Inr [(''a'', 1), (''abc'', 2)])
   \<and> map_option (map_sum id OrdinalQuery) (NewQuery rev ''q'' ''f.sql'' ''SELECT :a, :abc'' [])
     = Some (Inr ''-- name: q\<newline>SELECT $1, $2'')
   \<and> map_option (map_sum id OrdinalQuery) (NewQuery id ''q'' ''f.sql'' ''SELECT :a, x::abc'' [])
     = Some (Inr ''-- name: q\<newline>SELECT $1, x:$1bc'')"
  by code_simp

section \<open>One parameter style for each query\<close>

text \<open>
  Claim C7.  \<open>styles\<close> lists the conventions (ordinal, colon-named, at-named) that have a
  match in the comment-stripped text, reserved names left out.  When more than one has,
  \<^verbatim>\<open>NewQuery\<close> returns the mixed-parameter-styles error, which carries the name of the
  query and these conventions, and no descriptor; when at most one has, \<^verbatim>\<open>NewQuery\<close>
  returns no error.
\<close>

theorem C7_mixed_parameter_styles:
  "let clean = stripSQLComments query;
       styles = (if find_positional clean \<noteq> [] then [''positional ($1, $2, ...)''] else [])
              @ (if filterReservedNames (find_named (CHR '':'') clean) \<noteq> []
                 then [''colon (:param)''] else [])
              @ (if filterReservedNames (find_named (CHR ''@'') clean) \<noteq> []
                 then [''at-sign (@param)''] else [])
   in (length styles > 1 \<longrightarrow>
         NewQuery range_order name path query metadata
           = Some (Inl (MixedParameterStyles name styles)))
    \<and> (length styles \<le> 1 \<longrightarrow>
         (\<forall>err. NewQuery range_order name path query metadata \<noteq> Some (Inl err)))"
  by (auto simp: NewQuery_def validateSingleParameterStyle_def Let_def)

theorem C7_mixed_parameter_styles_witness:
  "1 < length [''positional ($1, $2, ...)'', ''colon (:param)'']
   \<and> NewQuery id ''q'' ''f.sql'' ''SELECT $1, :a'' []
     = Some (Inl (MixedParameterStyles ''q'' [''positional ($1, $2, ...)'', ''colon (:param)'']))
   \<and> length [''colon (:param)''] \<le> 1
   \<and> NewQuery id ''q'' ''f.sql'' ''SELECT :a'' []
     = Some (Inr \<lparr>Name = ''q'', Path = ''f.sql'', Raw = ''SELECT :a'',
                    OrdinalQuery = ''-- name: q\<newline>SELECT $1'', Mapping = [(''a'', 1)],
                    Args = [''a''], NamedArgs = [''a''], Metadata = []\<rparr>)
   \<and> error_message (MixedParameterStyles ''q'' [''positional ($1, $2, ...)'', ''colon (:param)''])
     = ''mixed parameter styles detected in query '' @ [CHR 0x27] @ ''q'' @ [CHR 0x27]
       @ '': found positional ($1, $2, ...) and colon (:param). Use only one style per query''"
proof -
  have p: "find_positional (stripSQLComments ''SELECT $1, :a'') = [''1'']"
    and c: "filterReservedNames (find_named (CHR '':'') (stripSQLComments ''SELECT $1, :a'')) = [''a'']"
    and a: "filterReservedNames (find_named (CHR ''@'') (stripSQLComments ''SELECT $1, :a'')) = []"
    by code_simp+
  have p': "find_positional (stripSQLComments ''SELECT :a'') = []"
    and c': "filterReservedNames (find_named (CHR '':'') (stripSQLComments ''SELECT :a'')) = [''a'']"
    and a': "filterReservedNames (find_named (CHR ''@'') (stripSQLComments ''SELECT :a'')) = []"
    by code_simp+
  have mixed: "NewQuery id ''q'' ''f.sql'' ''SELECT $1, :a'' []
     = Some (Inl (MixedParameterStyles ''q'' [''positional ($1, $2, ...)'', ''colon (:param)'']))"
    using C7_mixed_parameter_styles[of "''SELECT $1, :a''" id "''q''" "''f.sql''" "[]"]
    unfolding Let_def p c a by simp
  have "\<forall>err. NewQuery id ''q'' ''f.sql'' ''SELECT :a'' [] \<noteq> Some (Inl err)"
    using C7_mixed_parameter_styles[of "''SELECT :a''" id "''q''" "''f.sql''" "[]"]
    unfolding Let_def p' c' a' by simp
  have single: "NewQuery id ''q'' ''f.sql'' ''SELECT :a'' []
     = Some (Inr \<lparr>Name = ''q'', Path = ''f.sql'', Raw = ''SELECT :a'',
                    OrdinalQuery = ''-- name: q\<newline>SELECT $1'', Mapping = [(''a'', 1)],
                    Args = [''a''], NamedArgs = [''a''], Metadata = []\<rparr>)"
    by code_simp
  have m: "error_message (MixedParameterStyles ''q'' [''positional ($1, $2, ...)'', ''colon (:param)''])
     = ''mixed parameter styles detected in query '' @ [CHR 0x27] @ ''q'' @ [CHR 0x27]
       @ '': found positional ($1, $2, ...) and colon (:param). Use only one style per query''"
    by code_simp
  from mixed single m show ?thesis by simp
qed

section \<open>Named parameters: occurrences and ordinals\<close>

lemma distinct_in_order_snoc:
  "distinct_in_order (xs @ [x]) = (if x \<in> set xs then distinct_in_order xs else distinct_in_order xs @ [x])"
  by (simp add: distinct_in_order_def)

lemma set_distinct_in_order [simp]: "set (distinct_in_order xs) = set xs"
  by (simp add: distinct_in_order_def)

lemma distinct_distinct_in_order [simp]: "distinct (distinct_in_order xs)"
  by (simp add: distinct_in_order_def)

lemma update_fresh: "k \<notin> fst ` set al \<Longrightarrow> AList.update k v al = al @ [(k, v)]"
  by (induction al) auto

lemma numbered_snoc: "numbered (names @ [x]) = numbered names @ [(x, Suc (length names))]"
proof -
  have "[1..<Suc (length (names @ [x]))] = [1..<Suc (length names)] @ [Suc (length names)]"
    using upt_Suc_append[of 1 "Suc (length names)"] by simp
  then show ?thesis
    unfolding numbered_def by (simp del: upt_Suc)
qed

lemma keys_numbered [simp]: "map fst (numbered names) = names"
  unfolding numbered_def by (rule map_fst_zip) (simp del: upt_Suc)

lemma collect_params_result:
  "collect_params ms (numbered (distinct_in_order ar), distinct_in_order ar, ar,
       Suc (length (distinct_in_order ar)))
   = (let ar' = ar @ filterReservedNames ms
      in (numbered (distinct_in_order ar'), distinct_in_order ar', ar',
          Suc (length (distinct_in_order ar'))))"
proof (induction ms arbitrary: ar)
  case Nil
  then show ?case by (simp add: filterReservedNames_def)
next
  case (Cons v ms)
  let ?na = "distinct_in_order ar"
  show ?case
  proof (cases "isReservedName v")
    case True
    then show ?thesis using Cons.IH[of ar] by (simp add: filterReservedNames_def)
  next
    case False
    have keys: "fst ` set (numbered ?na) = set ar"
      using keys_numbered[of ?na] by (metis set_distinct_in_order set_map)
    show ?thesis
    proof (cases "v \<in> set ar")
      case True
      then have "map_of (numbered ?na) v \<noteq> None"
        using keys by (simp add: map_of_eq_None_iff)
      then obtain y where some: "map_of (numbered ?na) v = Some y" by blast
      have "distinct_in_order (ar @ [v]) = ?na"
        using True by (simp add: distinct_in_order_snoc)
      then show ?thesis
        using False some Cons.IH[of "ar @ [v]"] by (simp add: filterReservedNames_def)
    next
      case notin: False
      then have none: "map_of (numbered ?na) v = None"
        using keys by (simp add: map_of_eq_None_iff)
      have upd: "AList.update v (Suc (length ?na)) (numbered ?na) = numbered (?na @ [v])"
        using notin keys by (simp add: update_fresh numbered_snoc)
      have "distinct_in_order (ar @ [v]) = ?na @ [v]"
        using notin by (simp add: distinct_in_order_snoc)
      then show ?thesis
        using False none upd Cons.IH[of "ar @ [v]"] by (simp add: filterReservedNames_def)
    qed
  qed
qed

lemma handleNamedParams_fields:
  "Args (handleNamedParams ro q name query clean)
     = filterReservedNames (find_named (CHR '':'') clean @ find_named (CHR ''@'') clean)"
  "NamedArgs (handleNamedParams ro q name query clean)
     = distinct_in_order (filterReservedNames (find_named (CHR '':'') clean @ find_named (CHR ''@'') clean))"
  "Mapping (handleNamedParams ro q name query clean)
     = numbered (distinct_in_order (filterReservedNames (find_named (CHR '':'') clean @ find_named (CHR ''@'') clean)))"
  using collect_params_result[of "find_named (CHR '':'') clean @ find_named (CHR ''@'') clean" "[]"]
  by (simp_all add: handleNamedParams_def Let_def numbered_def distinct_in_order_def)

lemma map_of_numbered:
  assumes "distinct names" "i < length names"
  shows "map_of (numbered names) (names ! i) = Some (Suc i)"
proof -
  have len: "length names = length [1..<Suc (length names)]" by (simp del: upt_Suc)
  have "map_of (zip names [1..<Suc (length names)]) (names ! i) = Some ([1..<Suc (length names)] ! i)"
    using map_of_zip_nth[OF len assms(1)] assms(2) by simp
  moreover have "[1..<Suc (length names)] ! i = Suc i"
    using assms(2) by (simp del: upt_Suc)
  ultimately show ?thesis by (simp add: numbered_def)
qed

text \<open>
  Claim C3, as the code has it.  For content without ordinal markers, the occurrence list
  \<^verbatim>\<open>Args\<close> holds every non-reserved match in the order of the text, duplicates included;
  the distinct names, in the order of their first appearance, are numbered from 1, so the
  \<open>i\<close>-th distinct name has the ordinal \<open>i\<close>.  The example of the claim starts with a
  placeholder, which has no character before it and is not matched: its occurrence list
  is \<open>[x, y, y, x, z]\<close>, with the binding table \<open>{x:1, y:2, z:3}\<close>.  With text in front, as
  in the test of the repository, the list is \<open>[x, x, y, y, x, z]\<close>.
\<close>

theorem C3_ordinals_follow_first_appearance:
  "(find_positional (stripSQLComments query) = []
      \<and> NewQuery range_order name path query metadata = Some (Inr q) \<longrightarrow>
        Args q = filterReservedNames (find_named (CHR '':'') (stripSQLComments query)
                                       @ find_named (CHR ''@'') (stripSQLComments query))
        \<and> NamedArgs q = distinct_in_order (Args q)
        \<and> Mapping q = numbered (distinct_in_order (Args q))
        \<and> (\<forall>i < length (distinct_in_order (Args q)).
              map_of (Mapping q) (distinct_in_order (Args q) ! i) = Some (Suc i)))
   \<and> map_option (map_sum id (\<lambda>q. (Args q, Mapping q)))
       (NewQuery range_order name path '':x = :x OR :y = :y OR :x = :z'' metadata)
     = Some (Inr ([''x'', ''y'', ''y'', ''x'', ''z''], [(''x'', 1), (''y'', 2), (''z'', 3)]))
   \<and> map_option (map_sum id (\<lambda>q. (Args q, Mapping q)))
       (NewQuery range_order name path
          ''SELECT * FROM users WHERE :x = :x OR :y = :y OR :x = :z'' metadata)
     = Some (Inr ([''x'', ''x'', ''y'', ''y'', ''x'', ''z''], [(''x'', 1), (''y'', 2), (''z'', 3)]))"
proof (intro conjI impI)
  assume a: "find_positional (stripSQLComments query) = []
      \<and> NewQuery range_order name path query metadata = Some (Inr q)"
  let ?q0 = "\<lparr>Name = name, Path = path, Raw = query, OrdinalQuery = [], Mapping = [],
                Args = [], NamedArgs = [], Metadata = metadata\<rparr>"
  from a have q: "q = handleNamedParams range_order ?q0 name query (stripSQLComments query)"
    by (auto simp: NewQuery_def Let_def split: option.splits)
  show args: "Args q = filterReservedNames (find_named (CHR '':'') (stripSQLComments query)
                                       @ find_named (CHR ''@'') (stripSQLComments query))"
    unfolding q by (rule handleNamedParams_fields)
  show "NamedArgs q = distinct_in_order (Args q)"
    unfolding args unfolding q by (rule handleNamedParams_fields)
  show m: "Mapping q = numbered (distinct_in_order (Args q))"
    unfolding args unfolding q by (rule handleNamedParams_fields)
  show "\<forall>i < length (distinct_in_order (Args q)).
              map_of (Mapping q) (distinct_in_order (Args q) ! i) = Some (Suc i)"
    unfolding m using map_of_numbered[of "distinct_in_order (Args q)"] by simp
next
  show "map_option (map_sum id (\<lambda>q. (Args q, Mapping q)))
       (NewQuery range_order name path '':x = :x OR :y = :y OR :x = :z'' metadata)
     = Some (Inr ([''x'', ''y'', ''y'', ''x'', ''z''], [(''x'', 1), (''y'', 2), (''z'', 3)]))"
    by code_simp
next
  show "map_option (map_sum id (\<lambda>q. (Args q, Mapping q)))
       (NewQuery range_order name path
          ''SELECT * FROM users WHERE :x = :x OR :y = :y OR :x = :z'' metadata)
     = Some (Inr ([''x'', ''x'', ''y'', ''y'', ''x'', ''z''], [(''x'', 1), (''y'', 2), (''z'', 3)]))"
    by code_simp
qed

theorem C3_ordinals_follow_first_appearance_witness:
  "find_positional (stripSQLComments ''SELECT :x + :y + :x'') = []
   \<and> NewQuery id ''q'' ''f.sql'' ''SELECT :x + :y + :x'' []
      = Some (Inr \<lparr>Name = ''q'', Path = ''f.sql'', Raw = ''SELECT :x + :y + :x'',
                     OrdinalQuery = ''-- name: q\<newline>SELECT $1 + $2 + $1'',
                     Mapping = [(''x'', 1), (''y'', 2)], Args = [''x'', ''y'', ''x''],
                     NamedArgs = [''x'', ''y''], Metadata = []\<rparr>)
   \<and> distinct_in_order [''x'', ''y'', ''x''] = [''x'', ''y'']
   \<and> numbered [''x'', ''y''] = [(''x'', 1), (''y'', 2)]
   \<and> (1::nat) < length [''x'', ''y'']
   \<and> map_of [(''x'', 1::nat), (''y'', 2)] ([''x'', ''y''] ! 1) = Some (Suc 1)"
proof -
  let ?r = "\<lparr>Name = ''q'', Path = ''f.sql'', Raw = ''SELECT :x + :y + :x'',
                     OrdinalQuery = ''-- name: q\<newline>SELECT $1 + $2 + $1'',
                     Mapping = [(''x'', 1), (''y'', 2)], Args = [''x'', ''y'', ''x''],
                     NamedArgs = [''x'', ''y''], Metadata = []\<rparr>"
  have h1: "find_positional (stripSQLComments ''SELECT :x + :y + :x'') = []"
    by code_simp
  have h2: "NewQuery id ''q'' ''f.sql'' ''SELECT :x + :y + :x'' [] = Some (Inr ?r)"
    by code_simp
  have d: "distinct_in_order [''x'', ''y'', ''x''] = [''x'', ''y'']"
    by (simp add: distinct_in_order_def)
  have n: "numbered [''x'', ''y''] = [(''x'', 1), (''y'', 2)]"
    by (simp add: numbered_def upt_rec)
  from C3_ordinals_follow_first_appearance[of "''SELECT :x + :y + :x''" id "''q''" "''f.sql''" "[]" ?r]
    h1 h2
  have "Mapping ?r = numbered (distinct_in_order (Args ?r))
     \<and> (\<forall>i < length (distinct_in_order (Args ?r)).
              map_of (Mapping ?r) (distinct_in_order (Args ?r) ! i) = Some (Suc i))"
    by blast
  then show ?thesis using h1 h2 d n by simp
qed

text \<open>
  Claim C3 as it is written gives the occurrence list \<open>[x, x, y, y, x, z]\<close> for the content
  \<^verbatim>\<open>:x = :x OR :y = :y OR :x = :z\<close>; the code gives \<open>[x, y, y, x, z]\<close>.
\<close>

theorem C3_leading_placeholder_counterexample:
  "map_option (map_sum id Args)
       (NewQuery id ''q'' ''f.sql'' '':x = :x OR :y = :y OR :x = :z'' [])
     = Some (Inr [''x'', ''y'', ''y'', ''x'', ''z''])
   \<and> map_option (map_sum id Args)
       (NewQuery id ''q'' ''f.sql'' '':x = :x OR :y = :y OR :x = :z'' [])
     \<noteq> Some (Inr [''x'', ''x'', ''y'', ''y'', ''x'', ''z''])"
  by code_simp

section \<open>Ordinal parameters\<close>

lemma digit_val_digit_char: "d < 10 \<Longrightarrow> digit_val (digit_char d) = d"
  by (simp add: digit_val_def digit_char_def)

lemma nat_of_digits_snoc: "nat_of_digits (xs @ [c]) = 10 * nat_of_digits xs + digit_val c"
  by (simp add: nat_of_digits_def)

lemma nat_of_digits_show_nat: "nat_of_digits (show_nat n) = n"
proof (induction n rule: show_nat.induct)
  case (1 n)
  show ?case
  proof (cases "n < 10")
    case True
    then show ?thesis
      by (subst show_nat.simps) (simp add: nat_of_digits_def digit_val_digit_char)
  next
    case False
    then show ?thesis
      using 1 by (subst show_nat.simps) (simp add: nat_of_digits_snoc digit_val_digit_char)
  qed
qed

lemma show_nat_inj: "show_nat a = show_nat b \<Longrightarrow> a = b"
  by (metis nat_of_digits_show_nat)

lemma max_param_fold:
  "\<forall>tok \<in> set ms. nat_of_digits tok \<le> max_int \<Longrightarrow>
     max_param m ms = fold max (map nat_of_digits ms) m"
  by (induction ms arbitrary: m) (auto simp: sscanf_d_def Let_def max_def)

lemma max_param_Max:
  assumes "ms \<noteq> []" "\<forall>tok \<in> set ms. nat_of_digits tok \<le> max_int"
  shows "max_param 0 ms = Max (nat_of_digits ` set ms)"
proof -
  obtain t ts where ms: "ms = t # ts" using assms(1) by (cases ms) auto
  have "max_param 0 ms = fold max (map nat_of_digits ts) (nat_of_digits t)"
    using max_param_fold[OF assms(2), of 0] ms by simp
  also have "\<dots> = Max (set (nat_of_digits t # map nat_of_digits ts))"
    by (simp only: Max.set_eq_fold)
  finally show ?thesis using ms by simp
qed

lemma synthetic_inj: "synthetic a = synthetic b \<Longrightarrow> a = b"
  by (simp add: synthetic_def show_nat_inj)

lemma synthetic_loop_result:
  "1 \<le> i \<Longrightarrow> i \<le> Suc N \<Longrightarrow>
   synthetic_loop i N (map (\<lambda>j. (synthetic j, j)) [1..<i], map synthetic [1..<i], map synthetic [1..<i])
     = (map (\<lambda>j. (synthetic j, j)) [1..<Suc N], map synthetic [1..<Suc N], map synthetic [1..<Suc N])"
proof (induction "Suc N - i" arbitrary: i)
  case 0
  then have "i = Suc N" by simp
  then show ?case by (subst synthetic_loop.simps) simp
next
  case (Suc k)
  then have le: "i \<le> N" by simp
  have fresh: "synthetic i \<notin> fst ` set (map (\<lambda>j. (synthetic j, j)) [1..<i])"
    by (auto dest: synthetic_inj)
  have up: "[1..<Suc i] = [1..<i] @ [i]" using Suc.prems(1) by simp
  have step: "synthetic_loop i N (m, na, ar)
      = synthetic_loop (Suc i) N (AList.update (synthetic i) i m, na @ [synthetic i], ar @ [synthetic i])"
    for m na ar
    using le by (subst synthetic_loop.simps) (simp add: synthetic_def Let_def)
  have "synthetic_loop i N (map (\<lambda>j. (synthetic j, j)) [1..<i], map synthetic [1..<i], map synthetic [1..<i])
     = synthetic_loop (Suc i) N (map (\<lambda>j. (synthetic j, j)) [1..<Suc i], map synthetic [1..<Suc i], map synthetic [1..<Suc i])"
    unfolding step update_fresh[OF fresh] up by simp
  also have "\<dots> = (map (\<lambda>j. (synthetic j, j)) [1..<Suc N], map synthetic [1..<Suc N], map synthetic [1..<Suc N])"
    using Suc.hyps(1)[of "Suc i"] Suc.hyps(2) le by simp
  finally show ?case .
qed

text \<open>
  Claim C6, as the code has it.  A block uses the ordinal convention alone and its highest
  marker is \<^verbatim>\<open>$N\<close>, with \<open>N\<close> below the largest \<^verbatim>\<open>int\<close>.  Then \<^verbatim>\<open>NewQuery\<close> returns a
  descriptor whose binding table has exactly the \<open>N\<close> entries \<open>arg1 \<mapsto> 1\<close>, ...,
  \<open>argN \<mapsto> N\<close>, whose occurrence list is \<open>[arg1, ..., argN]\<close>, and whose ordinal text is the
  header line followed by the raw body, unchanged.
\<close>

theorem C6_ordinal_parameters:
  assumes "find_positional (stripSQLComments query) \<noteq> []"
    and "filterReservedNames (find_named (CHR '':'') (stripSQLComments query)) = []"
    and "filterReservedNames (find_named (CHR ''@'') (stripSQLComments query)) = []"
    and "N = Max (nat_of_digits ` set (find_positional (stripSQLComments query)))"
    and "N < max_int"
  shows "\<exists>q. NewQuery range_order name path query metadata = Some (Inr q)
           \<and> Mapping q = map (\<lambda>i. (synthetic i, i)) [1..<Suc N]
           \<and> length (Mapping q) = N \<and> distinct (map fst (Mapping q))
           \<and> Args q = map synthetic [1..<Suc N]
           \<and> NamedArgs q = map synthetic [1..<Suc N]
           \<and> Raw q = query
           \<and> OrdinalQuery q = header name query"
proof -
  let ?ms = "find_positional (stripSQLComments query)"
  let ?q0 = "\<lparr>Name = name, Path = path, Raw = query, OrdinalQuery = [], Mapping = [],
                Args = [], NamedArgs = [], Metadata = metadata\<rparr>"
  have "\<forall>tok \<in> set ?ms. nat_of_digits tok \<le> N"
    unfolding assms(4) by simp
  then have bound: "\<forall>tok \<in> set ?ms. nat_of_digits tok \<le> max_int"
    using assms(5) by auto
  have mp: "max_param 0 ?ms = N"
    using max_param_Max[OF assms(1) bound] assms(4) by simp
  have loop: "synthetic_loop 1 N ([], [], [])
      = (map (\<lambda>j. (synthetic j, j)) [1..<Suc N], map synthetic [1..<Suc N], map synthetic [1..<Suc N])"
    using synthetic_loop_result[of 1 N] by simp
  have "validateSingleParameterStyle name ?ms [] [] = None"
    by (simp add: validateSingleParameterStyle_def)
  then have nq: "NewQuery range_order name path query metadata
      = Some (Inr (?q0\<lparr>OrdinalQuery := header name query,
                       Mapping := map (\<lambda>j. (synthetic j, j)) [1..<Suc N],
                       Args := map synthetic [1..<Suc N],
                       NamedArgs := map synthetic [1..<Suc N]\<rparr>))"
    using assms(1,2,3,5) mp loop
    by (simp add: NewQuery_def Let_def handlePositionalParams_def)
  have "distinct (map synthetic [1..<Suc N])"
    by (simp add: distinct_map inj_on_def del: upt_Suc) (blast dest: synthetic_inj)
  then show ?thesis
    unfolding nq by (simp add: comp_def del: upt_Suc)
qed

theorem C6_ordinal_parameters_witness:
  "find_positional (stripSQLComments ''SELECT $3, $1'') \<noteq> []
   \<and> filterReservedNames (find_named (CHR '':'') (stripSQLComments ''SELECT $3, $1'')) = []
   \<and> filterReservedNames (find_named (CHR ''@'') (stripSQLComments ''SELECT $3, $1'')) = []
   \<and> (3::nat) = Max (nat_of_digits ` set (find_positional (stripSQLComments ''SELECT $3, $1'')))
   \<and> (3::nat) < max_int
   \<and> (\<exists>q. NewQuery id ''q'' ''f.sql'' ''SELECT $3, $1'' [] = Some (Inr q)
           \<and> Mapping q = [(''arg1'', 1), (''arg2'', 2), (''arg3'', 3)]
           \<and> length (Mapping q) = 3
           \<and> Args q = [''arg1'', ''arg2'', ''arg3'']
           \<and> OrdinalQuery q = ''-- name: q\<newline>SELECT $3, $1'')"
proof -
  have p: "find_positional (stripSQLComments ''SELECT $3, $1'') = [''3'', ''1'']"
    by code_simp
  have h1: "find_positional (stripSQLComments ''SELECT $3, $1'') \<noteq> []"
    unfolding p by simp
  have h2: "filterReservedNames (find_named (CHR '':'') (stripSQLComments ''SELECT $3, $1'')) = []"
    and h3: "filterReservedNames (find_named (CHR ''@'') (stripSQLComments ''SELECT $3, $1'')) = []"
    by code_simp+
  have h4: "(3::nat) = Max (nat_of_digits ` set (find_positional (stripSQLComments ''SELECT $3, $1'')))"
    unfolding p by (simp add: nat_of_digits_def digit_val_def)
  have h5: "(3::nat) < max_int" by (simp add: max_int_def)
  have names: "map (\<lambda>i. (synthetic i, i)) [1..<Suc 3] = [(''arg1'', 1), (''arg2'', 2), (''arg3'', 3)]"
    "map synthetic [1..<Suc 3] = [''arg1'', ''arg2'', ''arg3'']"
    "header ''q'' ''SELECT $3, $1'' = ''-- name: q\<newline>SELECT $3, $1''"
    by code_simp+
  show ?thesis
    using C6_ordinal_parameters[OF h1 h2 h3 h4 h5, of id "''q''" "''f.sql''" "[]"] h1 h2 h3 h4 h5
    unfolding names by auto
qed

text \<open>
  Claim C6 as it is written holds for every \<open>N\<close>.  A marker whose number does not fit an
  \<^verbatim>\<open>int\<close> is read as 0: the block below has the highest marker \<open>$N\<close> with \<open>N = 2\<^sup>6\<^sup>3\<close> and
  an empty binding table.
\<close>

theorem C6_marker_beyond_int_counterexample:
  "find_positional (stripSQLComments ''SELECT $9223372036854775808'') = [''9223372036854775808'']
   \<and> nat_of_digits ''9223372036854775808'' = 9223372036854775808
   \<and> map_option (map_sum id (\<lambda>q. (Mapping q, Args q)))
       (NewQuery id ''q'' ''f.sql'' ''SELECT $9223372036854775808'' []) = Some (Inr ([], []))"
proof (intro conjI)
  show p: "find_positional (stripSQLComments ''SELECT $9223372036854775808'') = [''9223372036854775808'']"
    by code_simp
  show v: "nat_of_digits ''9223372036854775808'' = 9223372036854775808"
    by (simp add: nat_of_digits_def digit_val_def)
  have c: "filterReservedNames (find_named (CHR '':'') (stripSQLComments ''SELECT $9223372036854775808'')) = []"
    and a: "filterReservedNames (find_named (CHR ''@'') (stripSQLComments ''SELECT $9223372036854775808'')) = []"
    by code_simp+
  have m: "sscanf_d ''9223372036854775808'' = 0"
    by (simp add: sscanf_d_def v max_int_def)
  have l: "synthetic_loop (Suc 0) 0 ([], [], []) = ([], [], [])"
    by (subst synthetic_loop.simps) simp
  show "map_option (map_sum id (\<lambda>q. (Mapping q, Args q)))
       (NewQuery id ''q'' ''f.sql'' ''SELECT $9223372036854775808'' []) = Some (Inr ([], []))"
    by (simp add: NewQuery_def Let_def p c a validateSingleParameterStyle_def
        handlePositionalParams_def m l max_int_def)
qed

section \<open>Loading a source into the store\<close>

lemma insert_queries_keeps:
  "insert_queries ro f es st = Some (r, st') \<Longrightarrow> map_of st n = Some q \<Longrightarrow> map_of st' n = Some q"
proof (induction es arbitrary: st)
  case Nil
  then show ?case by simp
next
  case (Cons e es)
  obtain name sq where e: "e = (name, sq)" by (cases e)
  show ?case
  proof (cases "map_of st name = None")
    case False
    with Cons.prems e show ?thesis by auto
  next
    case True
    then have ne: "n \<noteq> name" using Cons.prems(2) by auto
    show ?thesis
    proof (cases "NewQuery ro name f (sq_Query sq) (sq_Metadata sq)")
      case None
      with Cons.prems True e show ?thesis by simp
    next
      case (Some res)
      show ?thesis
      proof (cases res)
        case (Inl err)
        with Cons.prems True e Some show ?thesis by simp
      next
        case (Inr q')
        with Cons.prems(1) True e Some
        have "insert_queries ro f es (AList.update name q' st) = Some (r, st')" by simp
        moreover have "map_of (AList.update name q' st) n = Some q"
          using ne Cons.prems(2) by (simp add: update_conv')
        ultimately show ?thesis by (rule Cons.IH)
      qed
    qed
  qed
qed

lemma insert_queries_no_success:
  "name \<in> fst ` set es \<Longrightarrow> map_of st name \<noteq> None \<Longrightarrow> insert_queries ro f es st \<noteq> Some (None, st')"
proof (induction es arbitrary: st)
  case Nil
  then show ?case by simp
next
  case (Cons e es)
  obtain n sq where e: "e = (n, sq)" by (cases e)
  show ?case
  proof (cases "map_of st n = None")
    case False
    with e show ?thesis by auto
  next
    case True
    with Cons.prems e have in_rest: "name \<in> fst ` set es" by auto
    have keep: "map_of (AList.update n q' st) name \<noteq> None" for q'
      using Cons.prems(2) by (simp add: update_conv')
    show ?thesis
      using True e Cons.IH[OF in_rest keep]
      by (auto split: option.splits sum.splits)
  qed
qed

lemma insert_queries_duplicate:
  assumes "name \<in> fst ` set es" "map_of st name \<noteq> None"
    and "\<forall>(n, sq) \<in> set es. \<exists>q. NewQuery ro n f (sq_Query sq) (sq_Metadata sq) = Some (Inr q)"
  shows "\<exists>dup st'. insert_queries ro f es st = Some (Some (AlreadyExists dup), st')"
  using assms
proof (induction es arbitrary: st)
  case Nil
  then show ?case by simp
next
  case (Cons e es)
  obtain n sq where e: "e = (n, sq)" by (cases e)
  show ?case
  proof (cases "map_of st n = None")
    case False
    with e show ?thesis by auto
  next
    case True
    with Cons.prems e have in_rest: "name \<in> fst ` set es" by auto
    from Cons.prems(3) e obtain q' where
      nq: "NewQuery ro n f (sq_Query sq) (sq_Metadata sq) = Some (Inr q')" by auto
    have keep: "map_of (AList.update n q' st) name \<noteq> None"
      using Cons.prems(2) by (simp add: update_conv')
    have rest: "\<forall>(n, sq) \<in> set es. \<exists>q. NewQuery ro n f (sq_Query sq) (sq_Metadata sq) = Some (Inr q)"
      using Cons.prems(3) by auto
    show ?thesis
      using True e nq Cons.IH[OF in_rest keep rest] by simp
  qed
qed

lemma range_order_ok_set: "range_order_ok ro \<Longrightarrow> set (ro xs) = set xs"
  unfolding range_order_ok_def by (metis set_mset_mset)

lemma range_order_ok_id: "range_order_ok id"
  by (simp add: range_order_ok_def)

text \<open>
  Claim C8, as the code has it.  The store holds a descriptor under \<open>name\<close>, and the
  source being loaded defines a block \<open>name\<close> too.  Whatever the order in which the
  scanned blocks are visited: when the load returns, it returns an error, and every
  descriptor the store held before is still there, unchanged.  When every block of the
  source passes parameter analysis, the error is the duplicate-name error.
\<close>

theorem C8_duplicate_name_fails_and_keeps_first:
  assumes "range_order_ok scan_order"
    and "map_of store name = Some q0"
    and "name \<in> fst ` set (Run baseName lines)"
  shows "(\<forall>r store'. loadQueriesFromFile range_order scan_order fileName baseName lines store
                       = Some (r, store') \<longrightarrow>
            r \<noteq> None \<and> (\<forall>n q. map_of store n = Some q \<longrightarrow> map_of store' n = Some q))
       \<and> ((\<forall>(n, sq) \<in> set (Run baseName lines).
              \<exists>q. NewQuery range_order n fileName (sq_Query sq) (sq_Metadata sq) = Some (Inr q)) \<longrightarrow>
            (\<exists>dup store'. loadQueriesFromFile range_order scan_order fileName baseName lines store
                       = Some (Some (AlreadyExists dup), store')))"
proof -
  let ?es = "scan_order (Run baseName lines)"
  have set_eq: "set ?es = set (Run baseName lines)"
    using assms(1) by (rule range_order_ok_set)
  have inn: "name \<in> fst ` set ?es" using assms(3) set_eq by simp
  have dup: "map_of store name \<noteq> None" using assms(2) by simp
  show ?thesis
  proof (intro conjI allI impI)
    fix r store'
    assume l: "loadQueriesFromFile range_order scan_order fileName baseName lines store
                 = Some (r, store')"
    then show "r \<noteq> None"
      using insert_queries_no_success[OF inn dup, of range_order fileName store']
      by (auto simp: loadQueriesFromFile_def)
    fix n q
    assume "map_of store n = Some q"
    with l show "map_of store' n = Some q"
      unfolding loadQueriesFromFile_def by (rule insert_queries_keeps)
  next
    assume "\<forall>(n, sq) \<in> set (Run baseName lines).
              \<exists>q. NewQuery range_order n fileName (sq_Query sq) (sq_Metadata sq) = Some (Inr q)"
    then have "\<forall>(n, sq) \<in> set ?es.
              \<exists>q. NewQuery range_order n fileName (sq_Query sq) (sq_Metadata sq) = Some (Inr q)"
      using set_eq by simp
    from insert_queries_duplicate[OF inn dup this]
    show "\<exists>dup store'. loadQueriesFromFile range_order scan_order fileName baseName lines store
                       = Some (Some (AlreadyExists dup), store')"
      by (simp add: loadQueriesFromFile_def)
  qed
qed

theorem C8_duplicate_name_fails_and_keeps_first_witness:
  "range_order_ok (id :: (string \<times> ScannedQuery) list \<Rightarrow> (string \<times> ScannedQuery) list)
   \<and> loadQueriesFromFile id id ''one.sql'' ''one'' [''-- name: dup'', ''SELECT 1''] []
     = Some (None, [(''dup'', \<lparr>Name = ''dup'', Path = ''one.sql'', Raw = ''SELECT 1'',
                      OrdinalQuery = ''-- name: dup\<newline>SELECT 1'', Mapping = [],
                      Args = [], NamedArgs = [], Metadata = []\<rparr>)])
   \<and> ''dup'' \<in> fst ` set (Run ''two'' [''-- name: dup'', ''SELECT 2''])
   \<and> Run ''two'' [''-- name: dup'', ''SELECT 2'']
      = [(''dup'', \<lparr>sq_Query = ''SELECT 2'', sq_Metadata = []\<rparr>)]
   \<and> NewQuery id ''dup'' ''two.sql'' ''SELECT 2'' []
      = Some (Inr \<lparr>Name = ''dup'', Path = ''two.sql'', Raw = ''SELECT 2'',
                      OrdinalQuery = ''-- name: dup\<newline>SELECT 2'', Mapping = [],
                      Args = [], NamedArgs = [], Metadata = []\<rparr>)
   \<and> (\<exists>d store'. loadQueriesFromFile id id ''two.sql'' ''two'' [''-- name: dup'', ''SELECT 2'']
          [(''dup'', \<lparr>Name = ''dup'', Path = ''one.sql'', Raw = ''SELECT 1'',
                      OrdinalQuery = ''-- name: dup\<newline>SELECT 1'', Mapping = [],
                      Args = [], NamedArgs = [], Metadata = []\<rparr>)]
        = Some (Some (AlreadyExists d), store')
        \<and> map_of store' ''dup'' = Some \<lparr>Name = ''dup'', Path = ''one.sql'', Raw = ''SELECT 1'',
                      OrdinalQuery = ''-- name: dup\<newline>SELECT 1'', Mapping = [],
                      Args = [], NamedArgs = [], Metadata = []\<rparr>)"
proof -
  let ?q0 = "\<lparr>Name = ''dup'', Path = ''one.sql'', Raw = ''SELECT 1'',
                      OrdinalQuery = ''-- name: dup\<newline>SELECT 1'', Mapping = [],
                      Args = [], NamedArgs = [], Metadata = []\<rparr>"
  have h1: "range_order_ok (id :: (string \<times> ScannedQuery) list \<Rightarrow> (string \<times> ScannedQuery) list)"
    by (rule range_order_ok_id)
  have first: "loadQueriesFromFile id id ''one.sql'' ''one'' [''-- name: dup'', ''SELECT 1''] []
     = Some (None, [(''dup'', ?q0)])"
    by code_simp
  have h2: "map_of [(''dup'', ?q0)] ''dup'' = Some ?q0" by simp
  have run: "Run ''two'' [''-- name: dup'', ''SELECT 2'']
      = [(''dup'', \<lparr>sq_Query = ''SELECT 2'', sq_Metadata = []\<rparr>)]"
    by code_simp
  have h3: "''dup'' \<in> fst ` set (Run ''two'' [''-- name: dup'', ''SELECT 2''])"
    unfolding run by simp
  have nq: "NewQuery id ''dup'' ''two.sql'' ''SELECT 2'' []
      = Some (Inr \<lparr>Name = ''dup'', Path = ''two.sql'', Raw = ''SELECT 2'',
                      OrdinalQuery = ''-- name: dup\<newline>SELECT 2'', Mapping = [],
                      Args = [], NamedArgs = [], Metadata = []\<rparr>)"
    by code_simp
  have h4: "\<forall>(n, sq) \<in> set (Run ''two'' [''-- name: dup'', ''SELECT 2'']).
         \<exists>q. NewQuery id n ''two.sql'' (sq_Query sq) (sq_Metadata sq) = Some (Inr q)"
    unfolding run using nq by simp
  note c8 = C8_duplicate_name_fails_and_keeps_first[OF h1 h2 h3, of id "''two.sql''"]
  from c8[THEN conjunct2] h4 obtain d store' where
    l: "loadQueriesFromFile id id ''two.sql'' ''two'' [''-- name: dup'', ''SELECT 2'']
          [(''dup'', ?q0)] = Some (Some (AlreadyExists d), store')"
    by blast
  from c8[THEN conjunct1] l h2 have "map_of store' ''dup'' = Some ?q0"
    by blast
  with l have "\<exists>d store'. loadQueriesFromFile id id ''two.sql'' ''two''
          [''-- name: dup'', ''SELECT 2''] [(''dup'', ?q0)] = Some (Some (AlreadyExists d), store')
        \<and> map_of store' ''dup'' = Some ?q0"
    by blast
  with h1 first h3 run nq show ?thesis by (intro conjI)
qed

text \<open>
  Claim C8 as it is written promises the duplicate-name error.  The second source below
  defines \<open>dup\<close> again, after a block that mixes two parameter styles; visited in this
  order, the load fails with the analysis error of the first block.
\<close>

theorem C8_analysis_error_first_counterexample:
  "loadQueriesFromFile id id ''one.sql'' ''one'' [''-- name: dup'', ''SELECT 1''] []
     = Some (None, [(''dup'', \<lparr>Name = ''dup'', Path = ''one.sql'', Raw = ''SELECT 1'',
                      OrdinalQuery = ''-- name: dup\<newline>SELECT 1'', Mapping = [],
                      Args = [], NamedArgs = [], Metadata = []\<rparr>)])
   \<and> map_option fst
        (loadQueriesFromFile id id ''two.sql'' ''two''
           [''-- name: a'', ''SELECT $1, :x'', ''-- name: dup'', ''SELECT 2'']
           [(''dup'', \<lparr>Name = ''dup'', Path = ''one.sql'', Raw = ''SELECT 1'',
                      OrdinalQuery = ''-- name: dup\<newline>SELECT 1'', Mapping = [],
                      Args = [], NamedArgs = [], Metadata = []\<rparr>)])
     = Some (Some (ErrorCreatingQuery ''a''
          (MixedParameterStyles ''a'' [''positional ($1, $2, ...)'', ''colon (:param)''])))"
  by code_simp

section \<open>Binding the arguments\<close>

lemma rank_in_strictly_sorted:
  fixes f :: "'a \<Rightarrow> nat"
  assumes "sorted_wrt (<) (map f xs)" "i < length xs"
  shows "card {p \<in> set xs. f p < f (xs ! i)} = i"
proof -
  have less: "f (xs ! a) < f (xs ! b)" if "a < b" "b < length xs" for a b
    using sorted_wrt_nth_less[OF assms(1), of a b] that by simp
  have dist: "distinct xs"
    using assms(1) by (metis distinct_map strict_sorted_iff)
  have "{p \<in> set xs. f p < f (xs ! i)} = set (take i xs)"
  proof (intro set_eqI iffI)
    fix p assume "p \<in> {p \<in> set xs. f p < f (xs ! i)}"
    then obtain j where j: "j < length xs" "p = xs ! j" "f (xs ! j) < f (xs ! i)"
      by (auto simp: in_set_conv_nth)
    have "j < i"
    proof (rule ccontr)
      assume "\<not> j < i"
      then have "i = j \<or> i < j" by auto
      then show False using j less[of i j] by auto
    qed
    then show "p \<in> set (take i xs)"
      using j assms(2) by (auto simp: in_set_conv_nth)
  next
    fix p assume "p \<in> set (take i xs)"
    then obtain j where "j < i" "p = xs ! j"
      using assms(2) by (auto simp: in_set_conv_nth)
    then show "p \<in> {p \<in> set xs. f p < f (xs ! i)}"
      using less[of j i] assms(2) by auto
  qed
  moreover have "card (set (take i xs)) = i"
    using dist assms(2) by (simp add: distinct_card)
  ultimately show ?thesis by simp
qed

lemma Prepare_general:
  assumes "range_order_ok ro" "distinct (map snd (Mapping q))"
  shows "length (Prepare ro q args) = length (Mapping q)"
    and "(n, k) \<in> set (Mapping q) \<Longrightarrow>
           Prepare ro q args ! card {p \<in> set (Mapping q). snd p < k} = args n"
proof -
  let ?P = "ro (Mapping q)"
  let ?S = "sort_key snd ?P"
  have ms: "mset ?P = mset (Mapping q)"
    using assms(1) by (simp add: range_order_ok_def)
  then have setS: "set ?S = set (Mapping q)"
    by (metis set_sort mset_eq_setD)
  have lenS: "length ?S = length (Mapping q)"
    using ms by (metis length_sort mset_eq_length)
  show "length (Prepare ro q args) = length (Mapping q)"
    using lenS by (simp add: Prepare_def)
  have "mset (map snd ?S) = mset (map snd (Mapping q))"
    using ms by (metis mset_map mset_sort)
  then have "distinct (map snd ?S)"
    using assms(2) by (metis mset_eq_imp_distinct_iff)
  then have strict: "sorted_wrt (<) (map snd ?S)"
    by (simp add: strict_sorted_iff)
  assume "(n, k) \<in> set (Mapping q)"
  then obtain i where i: "i < length ?S" "?S ! i = (n, k)"
    using setS by (metis in_set_conv_nth)
  have "card {p \<in> set ?S. snd p < snd (?S ! i)} = i"
    using strict i(1) by (rule rank_in_strictly_sorted)
  then have "card {p \<in> set (Mapping q). snd p < k} = i"
    using setS i(2) by simp
  then show "Prepare ro q args ! card {p \<in> set (Mapping q). snd p < k} = args n"
    using i by (simp add: Prepare_def)
qed

lemma numbered_ordinals: "map snd (numbered names) = [1..<Suc (length names)]"
  unfolding numbered_def by (rule map_snd_zip) (simp del: upt_Suc)

lemma NewQuery_binding_table:
  assumes "NewQuery ro name path query md = Some (Inr d)"
  shows "distinct (map fst (Mapping d)) \<and> map snd (Mapping d) = [1..<Suc (length (Mapping d))]"
proof (cases "find_positional (stripSQLComments query) = []")
  case True
  let ?q0 = "\<lparr>Name = name, Path = path, Raw = query, OrdinalQuery = [], Mapping = [],
                Args = [], NamedArgs = [], Metadata = md\<rparr>"
  from assms True have d: "d = handleNamedParams ro ?q0 name query (stripSQLComments query)"
    by (auto simp: NewQuery_def Let_def split: option.splits)
  obtain names where m: "Mapping d = numbered (distinct_in_order names)"
    unfolding d using handleNamedParams_fields(3) by blast
  show ?thesis
    unfolding m using numbered_ordinals[of "distinct_in_order names"]
      length_map[of snd "numbered (distinct_in_order names)"] by (simp del: upt_Suc)
next
  case False
  let ?N = "max_param 0 (find_positional (stripSQLComments query))"
  let ?q0 = "\<lparr>Name = name, Path = path, Raw = query, OrdinalQuery = [], Mapping = [],
                Args = [], NamedArgs = [], Metadata = md\<rparr>"
  have loop: "synthetic_loop (Suc 0) ?N ([], [], [])
      = (map (\<lambda>j. (synthetic j, j)) [1..<Suc ?N], map synthetic [1..<Suc ?N], map synthetic [1..<Suc ?N])"
    using synthetic_loop_result[of 1 ?N] by simp
  from assms False have "handlePositionalParams ?q0 name query (stripSQLComments query)
      (find_positional (stripSQLComments query)) = Some d"
    by (auto simp: NewQuery_def Let_def split: option.splits)
  then have m: "Mapping d = map (\<lambda>j. (synthetic j, j)) [1..<Suc ?N]"
    by (auto simp: handlePositionalParams_def Let_def loop split: if_splits simp del: upt_Suc)
  have "distinct (map synthetic [1..<Suc ?N])"
    by (simp add: distinct_map inj_on_def del: upt_Suc) (blast dest: synthetic_inj)
  then show ?thesis
    unfolding m by (simp add: comp_def del: upt_Suc)
qed

lemma rank_of_ordinal:
  assumes "map snd m = [1..<Suc (length m)]" "(n, k) \<in> set m"
  shows "1 \<le> k" "k \<le> length m" "card {p \<in> set m. snd p < k} = k - 1"
proof -
  have img: "snd ` set m = {1..<Suc (length m)}"
    using assms(1) by (metis set_map set_upt)
  then have k: "k \<in> {1..<Suc (length m)}" using assms(2) by force
  then show "1 \<le> k" "k \<le> length m" by auto
  have "distinct (map snd m)" unfolding assms(1) by simp
  then have inj: "inj_on snd (set m)" by (simp add: distinct_map)
  have "snd ` {p \<in> set m. snd p < k} = {1..<k}"
  proof (intro set_eqI iffI)
    fix j assume "j \<in> snd ` {p \<in> set m. snd p < k}"
    then obtain p where p: "p \<in> set m" "snd p < k" "j = snd p" by auto
    then have "snd p \<in> {1..<Suc (length m)}" using img by blast
    then show "j \<in> {1..<k}" using p by simp
  next
    fix j assume j: "j \<in> {1..<k}"
    then have "j \<in> snd ` set m" using img k by simp
    then obtain p where "p \<in> set m" "j = snd p" by auto
    then show "j \<in> snd ` {p \<in> set m. snd p < k}" using j by auto
  qed
  moreover have "card (snd ` {p \<in> set m. snd p < k}) = card {p \<in> set m. snd p < k}"
    by (rule card_image) (rule inj_on_subset[OF inj], auto)
  ultimately show "card {p \<in> set m. snd p < k} = k - 1" by simp
qed

text \<open>
  Claim C9.  \<^verbatim>\<open>Prepare\<close> returns as many components as the binding table has entries.
  For a table whose ordinals differ from one another, the component of the name \<open>n\<close> with
  ordinal \<open>k\<close> stands at the position that counts the entries with a smaller ordinal: the
  components are in ascending order of the ordinals, whatever the order in which the
  table was ranged over.  For a descriptor that \<^verbatim>\<open>NewQuery\<close> returned the ordinals are
  \<open>1, ..., length\<close>, so this position is \<open>k - 1\<close>.  The component is the value the caller
  gave for \<open>n\<close>, and the nil \<open>None\<close> when the caller gave none.
\<close>

theorem C9_prepare_orders_by_ordinal:
  "(range_order_ok prepare_order \<and> distinct (map snd (Mapping q)) \<longrightarrow>
      length (Prepare prepare_order q args) = length (Mapping q)
      \<and> (\<forall>(n, k) \<in> set (Mapping q).
            Prepare prepare_order q args ! card {p \<in> set (Mapping q). snd p < k} = args n))
   \<and> (range_order_ok prepare_order
        \<and> NewQuery range_order name path query metadata = Some (Inr d) \<longrightarrow>
      length (Prepare prepare_order d args) = length (Mapping d)
      \<and> (\<forall>(n, k) \<in> set (Mapping d).
            1 \<le> k \<and> k \<le> length (Mapping d) \<and> Prepare prepare_order d args ! (k - 1) = args n))"
proof (intro conjI impI)
  assume a: "range_order_ok prepare_order \<and> distinct (map snd (Mapping q))"
  then show "length (Prepare prepare_order q args) = length (Mapping q)"
    using Prepare_general(1) by blast
  show "\<forall>(n, k) \<in> set (Mapping q).
            Prepare prepare_order q args ! card {p \<in> set (Mapping q). snd p < k} = args n"
    using a Prepare_general(2)[of prepare_order q] by blast
next
  assume a: "range_order_ok prepare_order
        \<and> NewQuery range_order name path query metadata = Some (Inr d)"
  then have ords: "map snd (Mapping d) = [1..<Suc (length (Mapping d))]"
    using NewQuery_binding_table by blast
  then have dist: "distinct (map snd (Mapping d))"
    by (metis distinct_upt)
  show "length (Prepare prepare_order d args) = length (Mapping d)"
    using a dist Prepare_general(1) by blast
  show "\<forall>(n, k) \<in> set (Mapping d).
            1 \<le> k \<and> k \<le> length (Mapping d) \<and> Prepare prepare_order d args ! (k - 1) = args n"
  proof (intro ballI, clarify)
    fix n k assume nk: "(n, k) \<in> set (Mapping d)"
    have "Prepare prepare_order d args ! card {p \<in> set (Mapping d). snd p < k} = args n"
      using a dist nk Prepare_general(2)[of prepare_order d n k args] by blast
    then show "1 \<le> k \<and> k \<le> length (Mapping d) \<and> Prepare prepare_order d args ! (k - 1) = args n"
      using rank_of_ordinal[OF ords nk] by simp
  qed
qed

theorem C9_prepare_orders_by_ordinal_witness:
  "range_order_ok (rev :: (string \<times> nat) list \<Rightarrow> (string \<times> nat) list)
   \<and> NewQuery id ''q'' ''f.sql'' ''SELECT :x + :y + :x'' []
      = Some (Inr \<lparr>Name = ''q'', Path = ''f.sql'', Raw = ''SELECT :x + :y + :x'',
                     OrdinalQuery = ''-- name: q\<newline>SELECT $1 + $2 + $1'',
                     Mapping = [(''x'', 1), (''y'', 2)], Args = [''x'', ''y'', ''x''],
                     NamedArgs = [''x'', ''y''], Metadata = []\<rparr>)
   \<and> distinct (map snd [(''x'', 1::nat), (''y'', 2)])
   \<and> Prepare rev \<lparr>Name = ''q'', Path = ''f.sql'', Raw = ''SELECT :x + :y + :x'',
                     OrdinalQuery = ''-- name: q\<newline>SELECT $1 + $2 + $1'',
                     Mapping = [(''x'', 1), (''y'', 2)], Args = [''x'', ''y'', ''x''],
                     NamedArgs = [''x'', ''y''], Metadata = []\<rparr>
        [''y'' \<mapsto> (7::int)]
      = [None, Some 7]"
proof -
  let ?d = "\<lparr>Name = ''q'', Path = ''f.sql'', Raw = ''SELECT :x + :y + :x'',
                     OrdinalQuery = ''-- name: q\<newline>SELECT $1 + $2 + $1'',
                     Mapping = [(''x'', 1), (''y'', 2)], Args = [''x'', ''y'', ''x''],
                     NamedArgs = [''x'', ''y''], Metadata = []\<rparr>"
  let ?args = "[''y'' \<mapsto> (7::int)]"
  have h1: "range_order_ok (rev :: (string \<times> nat) list \<Rightarrow> (string \<times> nat) list)"
    by (simp add: range_order_ok_def)
  have h2: "NewQuery id ''q'' ''f.sql'' ''SELECT :x + :y + :x'' [] = Some (Inr ?d)"
    by code_simp
  have h3: "distinct (map snd [(''x'', 1::nat), (''y'', 2)])" by simp
  note c9 = C9_prepare_orders_by_ordinal[of rev ?d ?args id "''q''" "''f.sql''"
      "''SELECT :x + :y + :x''" "[]" ?d]
  from c9[THEN conjunct2] h1 h2
  have len: "length (Prepare rev ?d ?args) = length (Mapping ?d)"
    and pos: "\<forall>(n, k) \<in> set (Mapping ?d). Prepare rev ?d ?args ! (k - 1) = ?args n"
    by blast+
  from len have l2: "length (Prepare rev ?d ?args) = 2" by simp
  from pos have "Prepare rev ?d ?args ! 0 = None" "Prepare rev ?d ?args ! 1 = Some 7"
    by auto
  with l2 have "Prepare rev ?d ?args = [None, Some 7]"
    by (auto simp: length_Suc_conv numeral_2_eq_2)
  with h1 h2 h3 show ?thesis by (intro conjI)
qed

section \<open>Comments and detection\<close>

lemma strip_line_simps:
  "strip_line [] = []"
  "strip_line [c] = [c]"
  "strip_line (a # b # s) = (if a = CHR ''-'' \<and> b = CHR ''-'' then [] else a # strip_line (b # s))"
  by (auto simp: strip_line_def split: option.splits)

lemma strip_line_comment: "strip_line (l @ ''--'' @ c) = strip_line (l @ ''--'')"
proof (induction l rule: induct_list012)
  case 1
  show ?case by (simp add: strip_line_simps)
next
  case (2 x)
  show ?case by (simp add: strip_line_simps)
next
  case (3 x y zs)
  then show ?case by (simp add: strip_line_simps)
qed

lemma split_lines_nonempty: "split_lines s \<noteq> []"
  by (induction s) (auto split: list.splits)

lemma split_lines_newline: "split_lines (x @ newline # y) = split_lines x @ split_lines y"
proof (induction x)
  case Nil
  show ?case by simp
next
  case (Cons c x)
  obtain l ls where "split_lines x = l # ls"
    using split_lines_nonempty[of x] by (cases "split_lines x") auto
  with Cons show ?case by simp
qed

lemma split_lines_tail:
  "newline \<notin> set z \<Longrightarrow> split_lines (a @ z) = butlast (split_lines a) @ [last (split_lines a) @ z]"
proof (induction a)
  case Nil
  then show ?case by (induction z) auto
next
  case (Cons c a)
  obtain l ls where l: "split_lines a = l # ls"
    using split_lines_nonempty[of a] by (cases "split_lines a") auto
  show ?case
  proof (cases "c = newline")
    case True
    then show ?thesis using Cons l by simp
  next
    case False
    show ?thesis
    proof (cases ls)
      case Nil
      then show ?thesis using Cons False l by simp
    next
      case (Cons l' ls')
      then show ?thesis using Cons.IH Cons.prems False l by simp
    qed
  qed
qed

lemma stripped_lines_comment:
  assumes "newline \<notin> set c" "b = [] \<or> hd b = newline"
  shows "map strip_line (split_lines (a @ ''--'' @ c @ b)) = map strip_line (split_lines (a @ ''--'' @ b))"
proof -
  have nl: "newline \<notin> set (''--'' @ c)" "newline \<notin> set ''--''"
    using assms(1) by (auto simp: newline_def)
  have one: "map strip_line (split_lines (a @ ''--'' @ c)) = map strip_line (split_lines (a @ ''--''))"
    unfolding split_lines_tail[OF nl(1)] split_lines_tail[OF nl(2)]
    using strip_line_comment[of "last (split_lines a)" c] by simp
  show ?thesis
  proof (cases b)
    case Nil
    then show ?thesis using one by simp
  next
    case (Cons x b')
    with assms(2) have b: "b = newline # b'" by simp
    have "split_lines (a @ ''--'' @ c @ b) = split_lines (a @ ''--'' @ c) @ split_lines b'"
      using split_lines_newline[of "a @ ''--'' @ c" b'] b by simp
    moreover have "split_lines (a @ ''--'' @ b) = split_lines (a @ ''--'') @ split_lines b'"
      using split_lines_newline[of "a @ ''--''" b'] b by simp
    ultimately show ?thesis using one by simp
  qed
qed

lemma stripSQLComments_comment:
  "newline \<notin> set c \<Longrightarrow> b = [] \<or> hd b = newline \<Longrightarrow>
     stripSQLComments (a @ ''--'' @ c @ b) = stripSQLComments (a @ ''--'' @ b)"
  using stripped_lines_comment[of c b a] by (simp add: stripSQLComments_def)

lemma handleNamedParams_detected:
  "detected (handleNamedParams ro q name query clean) = detected (handleNamedParams ro' q' name' query' clean)"
  by (simp add: detected_def handleNamedParams_fields)

lemma NewQuery_unfold:
  "NewQuery ro name path query md =
     (let q = \<lparr>Name = name, Path = path, Raw = query, OrdinalQuery = [], Mapping = [],
                Args = [], NamedArgs = [], Metadata = md\<rparr>;
          c = stripSQLComments query
      in case validateSingleParameterStyle name (find_positional c)
                (filterReservedNames (find_named (CHR '':'') c))
                (filterReservedNames (find_named (CHR ''@'') c)) of
           Some err \<Rightarrow> Some (Inl err)
         | None \<Rightarrow>
             if find_positional c \<noteq> []
             then map_option Inr (handlePositionalParams q name query c (find_positional c))
             else Some (Inr (handleNamedParams ro q name query c)))"
  by (simp add: NewQuery_def Let_def)

lemma NewQuery_detected:
  assumes "stripSQLComments query = stripSQLComments query'"
  shows "map_option (map_sum id detected) (NewQuery ro name path query md)
       = map_option (map_sum id detected) (NewQuery ro' name path' query' md')"
proof -
  let ?q = "\<lparr>Name = name, Path = path, Raw = query, OrdinalQuery = [], Mapping = [],
                Args = [], NamedArgs = [], Metadata = md\<rparr>"
  let ?q' = "\<lparr>Name = name, Path = path', Raw = query', OrdinalQuery = [], Mapping = [],
                Args = [], NamedArgs = [], Metadata = md'\<rparr>"
  let ?c = "stripSQLComments query'"
  let ?v = "validateSingleParameterStyle name (find_positional ?c)
                (filterReservedNames (find_named (CHR '':'') ?c))
                (filterReservedNames (find_named (CHR ''@'') ?c))"
  have p: "map_option (\<lambda>x. Inr (detected x)) (handlePositionalParams ?q name query ?c (find_positional ?c))
      = map_option (\<lambda>x. Inr (detected x)) (handlePositionalParams ?q' name query' ?c (find_positional ?c))"
    by (auto simp: handlePositionalParams_def Let_def detected_def split: prod.splits)
  have n: "detected (handleNamedParams ro ?q name query ?c) = detected (handleNamedParams ro' ?q' name query' ?c)"
    by (rule handleNamedParams_detected)
  show ?thesis
  proof (cases ?v)
    case (Some err)
    then show ?thesis unfolding NewQuery_unfold Let_def assms by simp
  next
    case None
    show ?thesis
    proof (cases "find_positional ?c = []")
      case True
      then show ?thesis unfolding NewQuery_unfold Let_def assms using None n by simp
    next
      case False
      then show ?thesis unfolding NewQuery_unfold Let_def assms using None p
        by (simp add: option.map_comp comp_def)
    qed
  qed
qed

text \<open>
  Claim C5.  Whatever a trailing comment says, be it a line of its own or behind content
  on the same line, analysis finds the same occurrences, the same binding table and the
  same error as for the text with that comment emptied: nothing inside a comment is
  detected.  The block \<^verbatim>\<open>SELECT 1; -- :user_id\<close> has no occurrence, and the block
  \<^verbatim>\<open>SELECT 1 WHERE id = :user_id; -- :user_id\<close> has exactly one, \<open>user_id\<close>.
\<close>

theorem C5_comment_placeholders_not_detected:
  "(newline \<notin> set comment \<and> (rest = [] \<or> hd rest = newline) \<longrightarrow>
      map_option (map_sum id detected)
        (NewQuery range_order name path (before @ ''--'' @ comment @ rest) metadata)
      = map_option (map_sum id detected)
        (NewQuery range_order name path (before @ ''--'' @ rest) metadata))
   \<and> map_option (map_sum id Args)
        (NewQuery range_order name path ''SELECT 1; -- :user_id'' metadata) = Some (Inr [])
   \<and> map_option (map_sum id Args)
        (NewQuery range_order name path ''SELECT 1 WHERE id = :user_id; -- :user_id'' metadata)
      = Some (Inr [''user_id''])"
proof (intro conjI impI)
  assume "newline \<notin> set comment \<and> (rest = [] \<or> hd rest = newline)"
  then have "stripSQLComments (before @ ''--'' @ comment @ rest)
      = stripSQLComments (before @ ''--'' @ rest)"
    using stripSQLComments_comment by blast
  then show "map_option (map_sum id detected)
        (NewQuery range_order name path (before @ ''--'' @ comment @ rest) metadata)
      = map_option (map_sum id detected)
        (NewQuery range_order name path (before @ ''--'' @ rest) metadata)"
    by (rule NewQuery_detected)
next
  show "map_option (map_sum id Args)
        (NewQuery range_order name path ''SELECT 1; -- :user_id'' metadata) = Some (Inr [])"
    by code_simp
next
  show "map_option (map_sum id Args)
        (NewQuery range_order name path ''SELECT 1 WHERE id = :user_id; -- :user_id'' metadata)
      = Some (Inr [''user_id''])"
    by code_simp
qed

theorem C5_comment_placeholders_not_detected_witness:
  "newline \<notin> set '' :other'' \<and> ([] = [] \<or> hd [] = newline)
   \<and> map_option (map_sum id detected)
        (NewQuery id ''q'' ''f.sql'' (''SELECT :id; '' @ ''--'' @ '' :other'' @ []) [])
      = Some (Inr ([''id''], [''id''], [(''id'', 1)]))
   \<and> map_option (map_sum id detected)
        (NewQuery id ''q'' ''f.sql'' (''SELECT :id; '' @ ''--'' @ []) [])
      = Some (Inr ([''id''], [''id''], [(''id'', 1)]))"
proof -
  have h: "newline \<notin> set '' :other'' \<and> ([] = [] \<or> hd [] = newline)"
    by (simp add: newline_def)
  have e: "map_option (map_sum id detected)
        (NewQuery id ''q'' ''f.sql'' (''SELECT :id; '' @ ''--'' @ []) [])
      = Some (Inr ([''id''], [''id''], [(''id'', 1)]))"
    by code_simp
  from C5_comment_placeholders_not_detected[of "'' :other''" "[]" id "''q''" "''f.sql''"
      "''SELECT :id; ''" "[]"] h
  have "map_option (map_sum id detected)
        (NewQuery id ''q'' ''f.sql'' (''SELECT :id; '' @ ''--'' @ '' :other'' @ []) [])
      = map_option (map_sum id detected)
        (NewQuery id ''q'' ''f.sql'' (''SELECT :id; '' @ ''--'' @ []) [])"
    by blast
  with h e show ?thesis by simp
qed

section \<open>Comments and substitution\<close>





























end
